theory Spec2Isabelle
  imports Complex_Main
begin

section \<open>The SETS engine of API-QA-Weaver: analyzer, generator and orchestrator\<close>

text \<open>
  The development embeds \<^verbatim>\<open>sets/src/CodeAnalyzer.ts\<close> and
  \<^verbatim>\<open>sets/src/TestGenerator.ts\<close> (which also holds the orchestrator class
  \<^verbatim>\<open>SelfEvolvingTestSuite\<close>). Mutable objects become records that are passed in
  and returned; a \<^verbatim>\<open>throw\<close> is the left injection of a sum; the libraries the code
  calls (the Babel parser, the OpenAI client, git, the TestEvolver class whose source is
  not part of the sources at hand) are parameters collected in records of functions.
  JavaScript numbers are idealised as real numbers.
\<close>

subsection \<open>Strings\<close>

text \<open>\<^verbatim>\<open>String.prototype.startsWith\<close>, \<^verbatim>\<open>endsWith\<close> and \<^verbatim>\<open>includes\<close>.\<close>

fun startsWith :: "'a list \<Rightarrow> 'a list \<Rightarrow> bool" where
  "startsWith s [] = True"
| "startsWith [] (p # ps) = False"
| "startsWith (c # cs) (p # ps) = (c = p \<and> startsWith cs ps)"

definition endsWith :: "'a list \<Rightarrow> 'a list \<Rightarrow> bool" where
  "endsWith s p = startsWith (rev s) (rev p)"

fun includes_str :: "'a list \<Rightarrow> 'a list \<Rightarrow> bool" where
  "includes_str [] p = (p = [])"
| "includes_str (c # cs) p = (startsWith (c # cs) p \<or> includes_str cs p)"

text \<open>\<^verbatim>\<open>toUpperCase\<close> on the ASCII letters; every other
  character is left alone (the method names the analyzer upper-cases come from fixed
  lists of ASCII words).\<close>

definition toUpperCase_char :: "char \<Rightarrow> char" where
  "toUpperCase_char c =
     (case map_of (zip ''abcdefghijklmnopqrstuvwxyz'' ''ABCDEFGHIJKLMNOPQRSTUVWXYZ'') c of
        Some u \<Rightarrow> u
      | None \<Rightarrow> c)"

definition toUpperCase :: "string \<Rightarrow> string" where
  "toUpperCase s = map toUpperCase_char s"

text \<open>The character class \<^verbatim>\<open>[a-zA-Z0-9]\<close>.\<close>

definition isAlnum :: "char \<Rightarrow> bool" where
  "isAlnum c =
     (c \<in> set ''abcdefghijklmnopqrstuvwxyzABCDEFGHIJKLMNOPQRSTUVWXYZ0123456789'')"

text \<open>\<^verbatim>\<open>String.prototype.trim\<close>, on the ASCII white space (space, tab, line feed,
  vertical tab, form feed, carriage return).\<close>

definition isSpace :: "char \<Rightarrow> bool" where
  "isSpace c = (c \<in> set [CHR 0x20, CHR 0x09, CHR 0x0A, CHR 0x0B, CHR 0x0C, CHR 0x0D])"

definition trim :: "string \<Rightarrow> string" where
  "trim s = rev (dropWhile isSpace (rev (dropWhile isSpace s)))"

subsection \<open>Errors, the console and the file system\<close>

datatype error =
    ENOENT "string list"
  | EISDIR "string list"
  | IOError string "string list"
  | TypeError string
  | Thrown string

datatype log_entry =
    ConsoleLog string
  | ConsoleError string "error option"

text \<open>A path is the list of its segments, so that \<^verbatim>\<open>path.join(dir, name)\<close> appends
  one segment. The file system is a tree of directories and regular files.\<close>

type_synonym path = "string list"

datatype fsnode = File string | Dir "(string \<times> fsnode) list"

definition join :: "path \<Rightarrow> string \<Rightarrow> path" where
  "join dir name = dir @ [name]"

fun lookup :: "fsnode \<Rightarrow> path \<Rightarrow> fsnode option" where
  "lookup n [] = Some n"
| "lookup (File c) (seg # p) = None"
| "lookup (Dir es) (seg # p) = (case map_of es seg of None \<Rightarrow> None | Some n \<Rightarrow> lookup n p)"

text \<open>A path as text, in messages.\<close>

fun path_string :: "path \<Rightarrow> string" where
  "path_string [] = []"
| "path_string [seg] = seg"
| "path_string (seg # p) = seg @ ''/'' @ path_string p"

definition existsSync :: "fsnode \<Rightarrow> path \<Rightarrow> bool" where
  "existsSync tree p = (lookup tree p \<noteq> None)"

definition readFileSync :: "fsnode \<Rightarrow> path \<Rightarrow> error + string" where
  "readFileSync tree p =
     (case lookup tree p of
        None \<Rightarrow> Inl (ENOENT p)
      | Some (Dir es) \<Rightarrow> Inl (EISDIR p)
      | Some (File c) \<Rightarrow> Inr c)"

text \<open>\<^verbatim>\<open>path.extname\<close>: the part of the last segment from its last dot on; empty when
  there is no dot, when the only dot is the first character, and for the segment
  \<^verbatim>\<open>..\<close>.\<close>

definition extname_segment :: "string \<Rightarrow> string" where
  "extname_segment name =
     (let suffix_len = length (takeWhile (\<lambda>c. c \<noteq> CHR ''.'') (rev name))
      in if suffix_len = length name then []
         else if suffix_len + 1 = length name then []
         else if name = ''..'' then []
         else drop (length name - suffix_len - 1) name)"

definition extname :: "path \<Rightarrow> string" where
  "extname p = (if p = [] then [] else extname_segment (last p))"

record world =
  fs :: fsnode
  console :: "log_entry list"

definition console_log :: "string \<Rightarrow> 'a world_scheme \<Rightarrow> 'a world_scheme" where
  "console_log msg w = w\<lparr>console := console w @ [ConsoleLog msg]\<rparr>"

definition console_error :: "string \<Rightarrow> error option \<Rightarrow> 'a world_scheme \<Rightarrow> 'a world_scheme" where
  "console_error msg e w = w\<lparr>console := console w @ [ConsoleError msg e]\<rparr>"

subsection \<open>The data model\<close>

text \<open>Modelled from the spec: the declarations of \<^verbatim>\<open>sets/src/types.ts\<close> are not part
  of the sources; the fields are the ones the analyzer, the generator, the orchestrator
  and the tests read and write. The field \<^verbatim>\<open>type\<close> of a \<^verbatim>\<open>Change\<close> is always
  \<^verbatim>\<open>'endpoint'\<close> and is left out; the \<^verbatim>\<open>path\<close> of a \<^verbatim>\<open>Change\<close> is called
  \<open>display\<close>, the \<^verbatim>\<open>type\<close> of a \<^verbatim>\<open>CodeChange\<close> is called \<open>kind\<close> and its
  \<^verbatim>\<open>file\<close> is called \<open>file_path\<close>.\<close>

record APIEndpoint =
  path :: string
  "method" :: string
  description :: "string option"

record Change =
  display :: string
  before :: "APIEndpoint option"
  after :: "APIEndpoint option"

datatype change_kind = added | modified | deleted

record CodeChange =
  file_path :: path
  kind :: change_kind
  changes :: "Change list"
  timestamp :: nat

text \<open>The template literal \<^verbatim>\<open>`${e.method} ${e.path}`\<close>.\<close>

definition display_string :: "APIEndpoint \<Rightarrow> string" where
  "display_string e = method e @ '' '' @ path e"

subsection \<open>The libraries behind the JavaScript recognizer\<close>

text \<open>The nodes that \<^verbatim>\<open>@babel/traverse\<close> hands to the two visitors, with the parts
  of a node the visitors read: the callee and the arguments of a call, the expression of
  a decorator, and the values of the leading comments (absent when there is no comment
  array).\<close>

datatype expr =
    Identifier string
  | StringLiteral string
  | MemberExpression expr expr
  | CallExpr expr "expr list"
  | OtherExpr

datatype visit =
    CallExpression expr "expr list" "string list option"
  | Decorator expr "string list option"

text \<open>What the code takes from its surroundings: \<open>parse_traverse\<close> is
  \<^verbatim>\<open>parser.parse\<close> followed by \<^verbatim>\<open>traverse\<close>, giving the nodes visited in order and
  the error the parser or the traversal itself ends with, if any;
  \<open>this_extractDescription\<close> is the call \<^verbatim>\<open>this.extractDescription(path)\<close> made inside
  a visitor, whose receiver is the one the traversal binds; \<open>now\<close> is
  \<^verbatim>\<open>new Date()\<close>.\<close>

record env =
  parse_traverse :: "string \<Rightarrow> visit list \<times> error option"
  this_extractDescription :: "string list option \<Rightarrow> error + string"
  now :: nat

subsection \<open>CodeAnalyzer\<close>

record CodeAnalyzer = world +
  endpointCache :: "path \<rightharpoonup> APIEndpoint list"

definition extractDescription :: "string list option \<Rightarrow> string" where
  "extractDescription leadingComments =
     (case leadingComments of
        None \<Rightarrow> []
      | Some comments \<Rightarrow> if length comments > 0 then trim (last comments) else [])"

text \<open>The visitor \<^verbatim>\<open>CallExpression(path)\<close> and the visitor \<^verbatim>\<open>Decorator(path)\<close>: each
  pushes at most one endpoint, or throws.\<close>

fun visitor :: "env \<Rightarrow> visit \<Rightarrow> error + APIEndpoint option" where
  "visitor E (CallExpression (MemberExpression object (Identifier name)) args comments) =
     (if name \<in> set [''get'', ''post'', ''put'', ''delete'', ''patch'']
      then (case args of
              StringLiteral v # a # rest \<Rightarrow>
                (case this_extractDescription E comments of
                   Inl e \<Rightarrow> Inl e
                 | Inr d \<Rightarrow> Inr (Some \<lparr>path = v, method = toUpperCase name, description = Some d\<rparr>))
            | _ \<Rightarrow> Inr None)
      else Inr None)"
| "visitor E (CallExpression callee args comments) = Inr None"
| "visitor E (Decorator (CallExpr (Identifier name) args) comments) =
     (if name \<in> set [''Get'', ''Post'', ''Put'', ''Delete'', ''Patch'']
      then (case args of
              StringLiteral v # rest \<Rightarrow>
                (case this_extractDescription E comments of
                   Inl e \<Rightarrow> Inl e
                 | Inr d \<Rightarrow> Inr (Some \<lparr>path = v, method = toUpperCase name, description = Some d\<rparr>))
            | _ \<Rightarrow> Inr None)
      else Inr None)"
| "visitor E (Decorator expression comments) = Inr None"

text \<open>The traversal calls the visitors node by node; the first throw ends it, and the
  endpoints pushed so far stay in the array.\<close>

fun run_visitors :: "env \<Rightarrow> visit list \<Rightarrow> APIEndpoint list \<Rightarrow> error option \<times> APIEndpoint list" where
  "run_visitors E [] endpoints = (None, endpoints)"
| "run_visitors E (v # vs) endpoints =
     (case visitor E v of
        Inl e \<Rightarrow> (Some e, endpoints)
      | Inr None \<Rightarrow> run_visitors E vs endpoints
      | Inr (Some ep) \<Rightarrow> run_visitors E vs (endpoints @ [ep]))"

text \<open>The body of the \<^verbatim>\<open>try\<close> block of \<^verbatim>\<open>analyzeJavaScript\<close>: the error it throws, if
  any, and the array \<^verbatim>\<open>endpoints\<close> as it stands then.\<close>

definition analyzeJavaScript_try :: "env \<Rightarrow> string \<Rightarrow> error option \<times> APIEndpoint list" where
  "analyzeJavaScript_try E content =
     (case parse_traverse E content of
        (visits, ended) \<Rightarrow>
          (case run_visitors E visits [] of
             (Some e, endpoints) \<Rightarrow> (Some e, endpoints)
           | (None, endpoints) \<Rightarrow> (ended, endpoints)))"

definition analyzeJavaScript ::
  "env \<Rightarrow> string \<Rightarrow> path \<Rightarrow> 'a CodeAnalyzer_scheme \<Rightarrow> (error + APIEndpoint list) \<times> 'a CodeAnalyzer_scheme" where
  "analyzeJavaScript E content filePath s =
     (case analyzeJavaScript_try E content of
        (thrown, endpoints) \<Rightarrow>
          (let s1 = (case thrown of
                       None \<Rightarrow> s
                     | Some e \<Rightarrow> console_error (''Error parsing '' @ path_string filePath @ '':'') (Some e) s)
           in (Inr endpoints, s1\<lparr>endpointCache := (endpointCache s1)(filePath \<mapsto> endpoints)\<rparr>)))"

text \<open>The Python recognizer. One attempt of
  \<^verbatim>\<open>/@app\.(get|post|put|delete|patch)\(['"]([^'"]+)['"]\)/\<close> at the start of a string:
  the method, the route and what follows the match.\<close>

definition isQuote :: "char \<Rightarrow> bool" where
  "isQuote c = (c = CHR 0x27 \<or> c = CHR 0x22)"

definition match_route :: "string \<Rightarrow> string \<Rightarrow> (string \<times> string \<times> string) option" where
  "match_route lead s =
     (if \<not> startsWith s lead then None
      else let s1 = drop (length lead) s
      in (case filter (startsWith s1) [''get'', ''post'', ''put'', ''delete'', ''patch''] of
            [] \<Rightarrow> None
          | m # ms \<Rightarrow>
              (case drop (length m) s1 of
                 c1 # c2 # s2 \<Rightarrow>
                   (if c1 = CHR ''('' \<and> isQuote c2
                    then let route = takeWhile (\<lambda>c. \<not> isQuote c) s2
                         in (case dropWhile (\<lambda>c. \<not> isQuote c) s2 of
                               c3 # c4 # s3 \<Rightarrow>
                                 (if route \<noteq> [] \<and> c4 = CHR '')'' then Some (m, route, s3) else None)
                             | _ \<Rightarrow> None)
                    else None)
               | _ \<Rightarrow> None)))"

text \<open>The loop \<^verbatim>\<open>while ((match = pattern.exec(content)) !== null)\<close> of a global pattern:
  the leftmost match is taken and the search goes on after it.\<close>

function exec_all :: "string \<Rightarrow> string \<Rightarrow> APIEndpoint list" where
  "exec_all lead [] = []"
| "exec_all lead (c # cs) =
     (case match_route lead (c # cs) of
        None \<Rightarrow> exec_all lead cs
      | Some (m, route, s3) \<Rightarrow>
          \<lparr>path = route, method = toUpperCase m, description = None\<rparr> # exec_all lead s3)"
  by pat_completeness auto
termination
proof -
  have shorter: "length s3 < length s"
    if "match_route lead s = Some (m, route, s3)" for lead s m route s3
  proof -
    from that have "\<exists>k c1 c2 s2 c3 c4. drop k s = c1 # c2 # s2 \<and>
        dropWhile (\<lambda>c. \<not> isQuote c) s2 = c3 # c4 # s3"
      by (auto simp: match_route_def Let_def split: if_splits list.splits) blast+
    then obtain k c1 c2 s2 c3 c4 where
      d: "drop k s = c1 # c2 # s2" and w: "dropWhile (\<lambda>c. \<not> isQuote c) s2 = c3 # c4 # s3"
      by blast
    from d have "length s2 < length s"
      by (drule_tac arg_cong [where f = length]) simp
    moreover from w have "length s3 < length s2"
      using length_dropWhile_le [of "\<lambda>c. \<not> isQuote c" s2] by simp
    ultimately show ?thesis by simp
  qed
  show ?thesis
    by (relation "measure (\<lambda>(lead, s). length s)") (auto dest: shorter)
qed

definition analyzePython ::
  "string \<Rightarrow> path \<Rightarrow> 'a CodeAnalyzer_scheme \<Rightarrow> (error + APIEndpoint list) \<times> 'a CodeAnalyzer_scheme" where
  "analyzePython content filePath s =
     (let endpoints = exec_all ''@app.'' content @ exec_all ''@router.'' content
      in (Inr endpoints, s\<lparr>endpointCache := (endpointCache s)(filePath \<mapsto> endpoints)\<rparr>))"

definition analyzeFile ::
  "env \<Rightarrow> path \<Rightarrow> 'a CodeAnalyzer_scheme \<Rightarrow> (error + APIEndpoint list) \<times> 'a CodeAnalyzer_scheme" where
  "analyzeFile E filePath s =
     (case readFileSync (fs s) filePath of
        Inl e \<Rightarrow> (Inl e, s)
      | Inr content \<Rightarrow>
          (let ext = extname filePath
           in if ext = ''.js'' \<or> ext = ''.ts'' then analyzeJavaScript E content filePath s
              else if ext = ''.py'' then analyzePython content filePath s
              else (Inr [], s)))"

text \<open>\<^verbatim>\<open>!previousContent\<close>: an absent argument and the empty string are both falsy.\<close>

definition falsy :: "string option \<Rightarrow> bool" where
  "falsy previousContent = (case previousContent of None \<Rightarrow> True | Some c \<Rightarrow> c = [])"

definition addition :: "APIEndpoint \<Rightarrow> Change" where
  "addition e = \<lparr>display = display_string e, before = None, after = Some e\<rparr>"

definition removal :: "APIEndpoint \<Rightarrow> Change" where
  "removal e = \<lparr>display = display_string e, before = Some e, after = None\<rparr>"

definition analyzeNewFile ::
  "env \<Rightarrow> path \<Rightarrow> 'a CodeAnalyzer_scheme \<Rightarrow> (error + Change list) \<times> 'a CodeAnalyzer_scheme" where
  "analyzeNewFile E filePath s =
     (case analyzeFile E filePath s of
        (Inl e, s') \<Rightarrow> (Inl e, s')
      | (Inr endpoints, s') \<Rightarrow> (Inr (map addition endpoints), s'))"

text \<open>The callback of \<^verbatim>\<open>find\<close> in both loops of \<^verbatim>\<open>detectChanges\<close>, and the test
  \<^verbatim>\<open>!previous\<close> on what \<^verbatim>\<open>find\<close> returns.\<close>

definition same_endpoint :: "APIEndpoint \<Rightarrow> APIEndpoint \<Rightarrow> bool" where
  "same_endpoint x e = (path e = path x \<and> method e = method x)"

definition not_found :: "APIEndpoint list \<Rightarrow> APIEndpoint \<Rightarrow> bool" where
  "not_found endpoints x = (find (same_endpoint x) endpoints = None)"

definition detectChanges ::
  "env \<Rightarrow> path \<Rightarrow> string option \<Rightarrow> 'a CodeAnalyzer_scheme
     \<Rightarrow> (error + CodeChange option) \<times> 'a CodeAnalyzer_scheme" where
  "detectChanges E filePath previousContent s =
     (case readFileSync (fs s) filePath of
        Inl e \<Rightarrow> (Inl e, s)
      | Inr currentContent \<Rightarrow>
          if falsy previousContent
          then (case analyzeNewFile E filePath s of
                  (Inl e, s') \<Rightarrow> (Inl e, s')
                | (Inr chs, s') \<Rightarrow>
                    (Inr (Some \<lparr>file_path = filePath, kind = added, changes = chs,
                                timestamp = now E\<rparr>), s'))
          else if Some currentContent = previousContent then (Inr None, s)
          else
            (let previousEndpoints = (case endpointCache s filePath of None \<Rightarrow> [] | Some eps \<Rightarrow> eps)
             in (case analyzeFile E filePath s of
                   (Inl e, s') \<Rightarrow> (Inl e, s')
                 | (Inr currentEndpoints, s') \<Rightarrow>
                     (let chs = map addition (filter (not_found previousEndpoints) currentEndpoints)
                              @ map removal (filter (not_found currentEndpoints) previousEndpoints)
                      in if length chs = 0 then (Inr None, s')
                         else (Inr (Some \<lparr>file_path = filePath, kind = modified, changes = chs,
                                          timestamp = now E\<rparr>), s')))))"

text \<open>A \<^verbatim>\<open>Set<string>\<close> keeps one copy of each element, in the order of insertion.\<close>

definition set_add :: "'a \<Rightarrow> 'a list \<Rightarrow> 'a list" where
  "set_add x xs = (if x \<in> set xs then xs else xs @ [x])"

text \<open>The loop \<^verbatim>\<open>for (const sourceFile of sourceFiles)\<close> of \<^verbatim>\<open>calculateCoverage\<close>.\<close>

fun collect_endpoints ::
  "env \<Rightarrow> path list \<Rightarrow> string list \<Rightarrow> 'a CodeAnalyzer_scheme
     \<Rightarrow> (error + string list) \<times> 'a CodeAnalyzer_scheme" where
  "collect_endpoints E [] allEndpoints s = (Inr allEndpoints, s)"
| "collect_endpoints E (sourceFile # rest) allEndpoints s =
     (case analyzeFile E sourceFile s of
        (Inl e, s') \<Rightarrow> (Inl e, s')
      | (Inr endpoints, s') \<Rightarrow>
          collect_endpoints E rest (fold set_add (map display_string endpoints) allEndpoints) s')"

definition calculateCoverage ::
  "env \<Rightarrow> path \<Rightarrow> path list \<Rightarrow> 'a CodeAnalyzer_scheme \<Rightarrow> (error + real) \<times> 'a CodeAnalyzer_scheme" where
  "calculateCoverage E testFile sourceFiles s =
     (case readFileSync (fs s) testFile of
        Inl e \<Rightarrow> (Inl e, s)
      | Inr testContent \<Rightarrow>
          (case collect_endpoints E sourceFiles [] s of
             (Inl e, s') \<Rightarrow> (Inl e, s')
           | (Inr allEndpoints, s') \<Rightarrow>
               (let testedEndpoints = fold set_add (filter (includes_str testContent) allEndpoints) []
                in (Inr (if length allEndpoints = 0 then 100
                         else real (length testedEndpoints) / real (length allEndpoints) * 100),
                    s'))))"

subsection \<open>TestGenerator\<close>

text \<open>Modelled from the spec: \<^verbatim>\<open>TestCase\<close> is declared in \<^verbatim>\<open>sets/src/types.ts\<close>, which is
  not part of the sources. The fields are the ones the orchestrator reads; the fields
  \<^verbatim>\<open>input\<close> and \<^verbatim>\<open>assertions\<close> are read by the template alone and are kept as text.
  The field \<^verbatim>\<open>id\<close> is called \<open>id_of\<close>.\<close>

record TestCase =
  id_of :: string
  name :: string
  endpoint :: APIEndpoint
  input :: string
  assertions :: "string list"
  autoGenerated :: bool

text \<open>What \<^verbatim>\<open>openai.chat.completions.create\<close> resolves to: the list \<^verbatim>\<open>choices\<close>, each
  choice with an optional message, each message with a content that may be null.\<close>

record ChatMessage =
  content :: "string option"

record Choice =
  message :: "ChatMessage option"

text \<open>The generator object: the OpenAI client, present when an API key was given, as the
  function from the prompt to the outcome of the call; \<^verbatim>\<open>JSON.stringify(testCase, null, 2)\<close>;
  and the text that \<^verbatim>\<open>generateWithTemplate\<close> builds from a test case (it calls nothing
  outside the generator, and the properties below hold for any such text).\<close>

record TestGenerator =
  openai :: "(string \<Rightarrow> error + Choice list) option"
  stringify_testCase :: "TestCase \<Rightarrow> error + string"
  generateWithTemplate :: "TestCase \<Rightarrow> string"

definition nl :: string where
  "nl = [CHR 0x0A]"

definition prompt :: "string \<Rightarrow> string" where
  "prompt json =
     ''Generate a Jest test for this API endpoint:'' @ nl @ json @ nl @ nl @
     ''Requirements:'' @ nl @
     ''1. Use Jest and axios'' @ nl @
     ''2. Include all assertions from the test case'' @ nl @
     ''3. Add descriptive test names'' @ nl @
     ''4. Include proper error handling'' @ nl @
     ''5. Add edge case tests'' @ nl @ nl @
     ''Generate clean, production-ready test code.''"

text \<open>\<^verbatim>\<open>completion.choices[0]?.message?.content\<close>: undefined or null when a link of the
  chain is missing.\<close>

definition first_content :: "Choice list \<Rightarrow> string option" where
  "first_content choices =
     (case choices of
        [] \<Rightarrow> None
      | c # cs \<Rightarrow> (case message c of None \<Rightarrow> None | Some m \<Rightarrow> content m))"

text \<open>The body of the \<^verbatim>\<open>try\<close> block of \<^verbatim>\<open>generateWithAI\<close>; the operator \<^verbatim>\<open>||\<close> falls
  back on undefined, null and the empty string.\<close>

definition generateWithAI_try ::
  "TestGenerator \<Rightarrow> (string \<Rightarrow> error + Choice list) \<Rightarrow> TestCase \<Rightarrow> error + string" where
  "generateWithAI_try G client testCase =
     (case stringify_testCase G testCase of
        Inl e \<Rightarrow> Inl e
      | Inr json \<Rightarrow>
          (case client (prompt json) of
             Inl e \<Rightarrow> Inl e
           | Inr choices \<Rightarrow>
               (case first_content choices of
                  None \<Rightarrow> Inr (generateWithTemplate G testCase)
                | Some c \<Rightarrow> Inr (if c = [] then generateWithTemplate G testCase else c))))"

definition generateWithAI ::
  "TestGenerator \<Rightarrow> TestCase \<Rightarrow> 'a world_scheme \<Rightarrow> (error + string) \<times> 'a world_scheme" where
  "generateWithAI G testCase w =
     (case openai G of
        None \<Rightarrow> (Inr (generateWithTemplate G testCase), w)
      | Some client \<Rightarrow>
          (case generateWithAI_try G client testCase of
             Inr code \<Rightarrow> (Inr code, w)
           | Inl e \<Rightarrow>
               (Inr (generateWithTemplate G testCase),
                console_error ''AI generation failed:'' (Some e) w)))"

definition generateTestCode ::
  "TestGenerator \<Rightarrow> TestCase \<Rightarrow> 'a world_scheme \<Rightarrow> (error + string) \<times> 'a world_scheme" where
  "generateTestCode G testCase w =
     (case openai G of
        Some client \<Rightarrow> generateWithAI G testCase w
      | None \<Rightarrow> (Inr (generateWithTemplate G testCase), w))"

subsection \<open>Writing to the file system\<close>

definition update_entry :: "string \<Rightarrow> fsnode \<Rightarrow> (string \<times> fsnode) list \<Rightarrow> (string \<times> fsnode) list" where
  "update_entry seg n es = map (\<lambda>(k, v). if k = seg then (k, n) else (k, v)) es"

text \<open>\<^verbatim>\<open>fs.writeFileSync\<close> replaces a regular file or creates it in an existing
  directory; it fails on a directory and below a missing directory or a regular file.\<close>

fun write_node :: "fsnode \<Rightarrow> path \<Rightarrow> string \<Rightarrow> fsnode option" where
  "write_node (File old) [] c = Some (File c)"
| "write_node (Dir es) [] c = None"
| "write_node (File old) (seg # p) c = None"
| "write_node (Dir es) (seg # p) c =
     (case map_of es seg of
        None \<Rightarrow> if p = [] then Some (Dir (es @ [(seg, File c)])) else None
      | Some n \<Rightarrow>
          (case write_node n p c of
             None \<Rightarrow> None
           | Some n' \<Rightarrow> Some (Dir (update_entry seg n' es))))"

definition writeFileSync :: "path \<Rightarrow> string \<Rightarrow> 'a world_scheme \<Rightarrow> (error + unit) \<times> 'a world_scheme" where
  "writeFileSync p c w =
     (case write_node (fs w) p c of
        None \<Rightarrow> (Inl (IOError ''writeFileSync'' p), w)
      | Some t \<Rightarrow> (Inr (), w\<lparr>fs := t\<rparr>))"

text \<open>\<^verbatim>\<open>fs.mkdirSync(dir, { recursive: true })\<close> creates the missing directories of a
  path; it fails when a segment of the path is a regular file.\<close>

fun mk_chain :: "path \<Rightarrow> fsnode" where
  "mk_chain [] = Dir []"
| "mk_chain (seg # p) = Dir [(seg, mk_chain p)]"

fun mkdir_node :: "fsnode \<Rightarrow> path \<Rightarrow> fsnode option" where
  "mkdir_node (File c) p = None"
| "mkdir_node (Dir es) [] = Some (Dir es)"
| "mkdir_node (Dir es) (seg # p) =
     (case map_of es seg of
        None \<Rightarrow> Some (Dir (es @ [(seg, mk_chain p)]))
      | Some n \<Rightarrow>
          (case mkdir_node n p of
             None \<Rightarrow> None
           | Some n' \<Rightarrow> Some (Dir (update_entry seg n' es))))"

definition mkdirSync :: "path \<Rightarrow> 'a world_scheme \<Rightarrow> (error + unit) \<times> 'a world_scheme" where
  "mkdirSync p w =
     (case mkdir_node (fs w) p of
        None \<Rightarrow> (Inl (IOError ''mkdirSync'' p), w)
      | Some t \<Rightarrow> (Inr (), w\<lparr>fs := t\<rparr>))"

text \<open>\<^verbatim>\<open>path.dirname\<close> of a path made by \<^verbatim>\<open>path.join\<close>.\<close>

definition dirname :: "path \<Rightarrow> path" where
  "dirname p = butlast p"

subsection \<open>The test evolver and the orchestrator's surroundings\<close>

text \<open>Modelled from the spec: \<^verbatim>\<open>sets/src/TestEvolver.ts\<close> and \<^verbatim>\<open>sets/src/types.ts\<close> are
  not part of the sources. An evolution action has a type (\<^verbatim>\<open>added\<close>, \<^verbatim>\<open>updated\<close>,
  \<^verbatim>\<open>removed\<close>), the id of its test, a reason and, in \<^verbatim>\<open>details\<close>, the test case. An
  evolution has a version, a reason, its actions (the field \<^verbatim>\<open>changes\<close>), the pair
  \<^verbatim>\<open>coverage.before\<close>, \<^verbatim>\<open>coverage.after\<close> and a timestamp. The evolver owns the
  store of test cases, which \<^verbatim>\<open>getTestCases\<close> returns, and the history, which
  \<^verbatim>\<open>getEvolutionHistory\<close> returns.\<close>

datatype evolution_type = Added | Updated | Removed

record EvolutionChange =
  action_type :: evolution_type
  testId :: string
  action_reason :: string
  details :: TestCase

record Evolution =
  version :: nat
  reason :: string
  actions :: "EvolutionChange list"
  coverage_before :: real
  coverage_after :: real
  evolved_at :: nat

record TestEvolver =
  testCases :: "TestCase list"
  evolutionHistory :: "Evolution list"

definition getTestCases :: "TestEvolver \<Rightarrow> TestCase list" where
  "getTestCases ev = testCases ev"

definition getEvolutionHistory :: "TestEvolver \<Rightarrow> Evolution list" where
  "getEvolutionHistory ev = evolutionHistory ev"

record EvolutionConfig =
  watchPaths :: "path list"
  testPaths :: "path list"
  coverageTarget :: real
  gitEnabled :: bool

text \<open>What the orchestrator calls: the analyzer's surroundings, the generator,
  \<^verbatim>\<open>testEvolver.evolveTestSuite\<close> (which may throw and which updates the evolver),
  \<^verbatim>\<open>JSON.stringify(history, null, 2)\<close>, and the outcomes of \<^verbatim>\<open>git.add('.')\<close> and of
  \<^verbatim>\<open>git.commit\<close> (the error thrown, if any).\<close>

record collaborators =
  analyzer_env :: env
  generator :: TestGenerator
  testEvolver_evolveTestSuite ::
    "CodeChange list \<Rightarrow> real \<Rightarrow> real \<Rightarrow> TestEvolver \<Rightarrow> (error + Evolution) \<times> TestEvolver"
  stringify_history :: "Evolution list \<Rightarrow> string"
  git_add :: "error option"
  git_commit :: "string \<Rightarrow> error option"

subsection \<open>SelfEvolvingTestSuite\<close>

record SelfEvolvingTestSuite = CodeAnalyzer +
  config :: EvolutionConfig
  testEvolver :: TestEvolver
  git :: bool
  fileSnapshots :: "path \<rightharpoonup> string"
  isEvolving :: bool

text \<open>\<^verbatim>\<open>getAllFiles\<close>: the local function \<^verbatim>\<open>walk\<close> goes through the entries of a
  directory in order, descends into the directories whose name neither starts with a dot nor
  is \<^verbatim>\<open>node_modules\<close>, and keeps the regular files whose name ends with one of the
  extensions. A path that is a regular file is kept whatever its name.\<close>

fun walk :: "string list \<Rightarrow> path \<Rightarrow> (string \<times> fsnode) list \<Rightarrow> path list" where
  "walk extensions currentDir [] = []"
| "walk extensions currentDir ((entry, Dir es) # entries) =
     (if \<not> startsWith entry ''.'' \<and> entry \<noteq> ''node_modules''
      then walk extensions (join currentDir entry) es else [])
     @ walk extensions currentDir entries"
| "walk extensions currentDir ((entry, File c) # entries) =
     (if \<exists>ext \<in> set extensions. endsWith entry ext then [join currentDir entry] else [])
     @ walk extensions currentDir entries"

definition getAllFiles :: "fsnode \<Rightarrow> path \<Rightarrow> string list \<Rightarrow> path list" where
  "getAllFiles tree dir extensions =
     (case lookup tree dir of
        None \<Rightarrow> []
      | Some (Dir es) \<Rightarrow> walk extensions dir es
      | Some (File c) \<Rightarrow> [dir])"

text \<open>\<^verbatim>\<open>calculateCurrentCoverage\<close>: the inner loop over the test files of one test path,
  the outer loop over the test paths, and the mean.\<close>

fun coverage_of_files ::
  "env \<Rightarrow> path list \<Rightarrow> path list \<Rightarrow> real \<times> nat \<Rightarrow> 'a CodeAnalyzer_scheme
     \<Rightarrow> (error + real \<times> nat) \<times> 'a CodeAnalyzer_scheme" where
  "coverage_of_files E sourceFiles [] (totalCoverage, testCount) s =
     (Inr (totalCoverage, testCount), s)"
| "coverage_of_files E sourceFiles (testFile # testFiles) (totalCoverage, testCount) s =
     (case calculateCoverage E testFile sourceFiles s of
        (Inl e, s') \<Rightarrow> (Inl e, s')
      | (Inr coverage, s') \<Rightarrow>
          coverage_of_files E sourceFiles testFiles (totalCoverage + coverage, testCount + 1) s')"

fun coverage_of_paths ::
  "env \<Rightarrow> path list \<Rightarrow> path list \<Rightarrow> real \<times> nat \<Rightarrow> 'a CodeAnalyzer_scheme
     \<Rightarrow> (error + real \<times> nat) \<times> 'a CodeAnalyzer_scheme" where
  "coverage_of_paths E sourceFiles [] acc s = (Inr acc, s)"
| "coverage_of_paths E sourceFiles (testPath # rest) acc s =
     (if existsSync (fs s) testPath
      then (case coverage_of_files E sourceFiles
                   (getAllFiles (fs s) testPath [''.test.js'', ''.spec.js'']) acc s of
              (Inl e, s') \<Rightarrow> (Inl e, s')
            | (Inr acc', s') \<Rightarrow> coverage_of_paths E sourceFiles rest acc' s')
      else coverage_of_paths E sourceFiles rest acc s)"

definition calculateCurrentCoverage ::
  "env \<Rightarrow> 'a SelfEvolvingTestSuite_scheme \<Rightarrow> (error + real) \<times> 'a SelfEvolvingTestSuite_scheme" where
  "calculateCurrentCoverage E s =
     (let sourceFiles = concat (map (\<lambda>watchPath. getAllFiles (fs s) watchPath [''.js'', ''.ts''])
                                    (watchPaths (config s)))
      in (case coverage_of_paths E sourceFiles (testPaths (config s)) (0, 0) s of
            (Inl e, s') \<Rightarrow> (Inl e, s')
          | (Inr (totalCoverage, testCount), s') \<Rightarrow>
              (Inr (if testCount = 0 then 0 else totalCoverage / real testCount), s')))"

text \<open>\<^verbatim>\<open>replace(/[^a-zA-Z0-9]/g, '_')\<close> and the name of the generated test file.\<close>

definition sanitize :: "string \<Rightarrow> string" where
  "sanitize p = map (\<lambda>c. if isAlnum c then c else CHR ''_'') p"

definition testFileName :: "TestCase \<Rightarrow> string" where
  "testFileName testCase = sanitize (path (endpoint testCase)) @ ''.test.js''"

text \<open>\<^verbatim>\<open>this.config.testPaths[0]\<close> is undefined for an empty list, and \<^verbatim>\<open>path.join\<close>
  throws a TypeError on it.\<close>

definition first_testPath :: "EvolutionConfig \<Rightarrow> error + path" where
  "first_testPath cfg =
     (case testPaths cfg of
        [] \<Rightarrow> Inl (TypeError ''The path argument must be of type string'')
      | dir # rest \<Rightarrow> Inr dir)"

definition generateTestCode_suite ::
  "collaborators \<Rightarrow> TestCase \<Rightarrow> 'a SelfEvolvingTestSuite_scheme
     \<Rightarrow> (error + unit) \<times> 'a SelfEvolvingTestSuite_scheme" where
  "generateTestCode_suite C testCase s =
     (case generateTestCode (generator C) testCase s of
        (Inl e, s1) \<Rightarrow> (Inl e, s1)
      | (Inr testCode, s1) \<Rightarrow>
          (case first_testPath (config s1) of
             Inl e \<Rightarrow> (Inl e, s1)
           | Inr dir \<Rightarrow>
               (let testFilePath = join dir (testFileName testCase);
                    testDir = dirname testFilePath
                in (case (if \<not> existsSync (fs s1) testDir then mkdirSync testDir s1
                          else (Inr (), s1)) of
                      (Inl e, s2) \<Rightarrow> (Inl e, s2)
                    | (Inr u, s2) \<Rightarrow>
                        (case writeFileSync testFilePath testCode s2 of
                           (Inl e, s3) \<Rightarrow> (Inl e, s3)
                         | (Inr u', s3) \<Rightarrow>
                             (Inr (), console_log (''Generated test: '' @ path_string testFilePath) s3))))))"

definition saveEvolutionHistory ::
  "collaborators \<Rightarrow> 'a SelfEvolvingTestSuite_scheme \<Rightarrow> (error + unit) \<times> 'a SelfEvolvingTestSuite_scheme" where
  "saveEvolutionHistory C s =
     (let history = getEvolutionHistory (testEvolver s)
      in (case first_testPath (config s) of
            Inl e \<Rightarrow> (Inl e, s)
          | Inr dir \<Rightarrow>
              writeFileSync (join dir ''.evolution-history.json'') (stringify_history C history) s))"

definition commitChanges ::
  "collaborators \<Rightarrow> string \<Rightarrow> 'a SelfEvolvingTestSuite_scheme \<Rightarrow> 'a SelfEvolvingTestSuite_scheme" where
  "commitChanges C msg s =
     (if \<not> git s then s
      else (case git_add C of
              Some e \<Rightarrow> console_error ''Git commit failed:'' (Some e) s
            | None \<Rightarrow>
                (case git_commit C (''[SETS] '' @ msg) of
                   Some e \<Rightarrow> console_error ''Git commit failed:'' (Some e) s
                 | None \<Rightarrow> console_log ''Changes committed to git'' s)))"

text \<open>The loop of \<^verbatim>\<open>evolveTestSuite\<close> over the actions of the evolution, and
  \<^verbatim>\<open>evolveTestSuite\<close>; the two lines that report the evolution are logged without
  their numbers.\<close>

fun generate_all ::
  "collaborators \<Rightarrow> EvolutionChange list \<Rightarrow> 'a SelfEvolvingTestSuite_scheme
     \<Rightarrow> (error + unit) \<times> 'a SelfEvolvingTestSuite_scheme" where
  "generate_all C [] s = (Inr (), s)"
| "generate_all C (change # rest) s =
     (if action_type change = Added \<or> action_type change = Updated
      then (case generateTestCode_suite C (details change) s of
              (Inl e, s') \<Rightarrow> (Inl e, s')
            | (Inr u, s') \<Rightarrow> generate_all C rest s')
      else generate_all C rest s)"

definition evolveTestSuite ::
  "collaborators \<Rightarrow> CodeChange list \<Rightarrow> 'a SelfEvolvingTestSuite_scheme
     \<Rightarrow> (error + unit) \<times> 'a SelfEvolvingTestSuite_scheme" where
  "evolveTestSuite C code_changes s =
     (case calculateCurrentCoverage (analyzer_env C) (console_log ''Evolving test suite...'' s) of
        (Inl e, s1) \<Rightarrow> (Inl e, s1)
      | (Inr currentCoverage, s1) \<Rightarrow>
          (case testEvolver_evolveTestSuite C code_changes currentCoverage
                  (coverageTarget (config s1)) (testEvolver s1) of
             (Inl e, ev) \<Rightarrow> (Inl e, s1\<lparr>testEvolver := ev\<rparr>)
           | (Inr evolution, ev) \<Rightarrow>
               (let s2 = console_log ''Coverage before and after''
                           (console_log ''Evolution complete'' (s1\<lparr>testEvolver := ev\<rparr>))
                in (case generate_all C (actions evolution) s2 of
                      (Inl e, s3) \<Rightarrow> (Inl e, s3)
                    | (Inr u, s3) \<Rightarrow>
                        (case saveEvolutionHistory C s3 of
                           (Inl e, s4) \<Rightarrow> (Inl e, s4)
                         | (Inr u', s4) \<Rightarrow>
                             (Inr (), if gitEnabled (config s4) \<and> git s4
                                      then commitChanges C (reason evolution) s4 else s4))))))"

text \<open>The body of the \<^verbatim>\<open>try\<close> block of \<^verbatim>\<open>handleFileChange\<close>.\<close>

definition handleFileChange_try ::
  "collaborators \<Rightarrow> path \<Rightarrow> string \<Rightarrow> 'a SelfEvolvingTestSuite_scheme
     \<Rightarrow> (error + unit) \<times> 'a SelfEvolvingTestSuite_scheme" where
  "handleFileChange_try C filePath event s =
     (let previousContent = fileSnapshots s filePath
      in (case detectChanges (analyzer_env C) filePath previousContent s of
            (Inl e, s1) \<Rightarrow> (Inl e, s1)
          | (Inr None, s1) \<Rightarrow> (Inr (), s1)
          | (Inr (Some change), s1) \<Rightarrow>
              (if event \<noteq> ''delete''
               then (case readFileSync (fs s1) filePath of
                       Inl e \<Rightarrow> (Inl e, s1)
                     | Inr c \<Rightarrow>
                         evolveTestSuite C [change]
                           (s1\<lparr>fileSnapshots := (fileSnapshots s1)(filePath \<mapsto> c)\<rparr>))
               else evolveTestSuite C [change]
                      (s1\<lparr>fileSnapshots := (fileSnapshots s1)(filePath := None)\<rparr>))))"

text \<open>\<^verbatim>\<open>handleFileChange\<close>: the guard, the \<^verbatim>\<open>try\<close> block, the \<^verbatim>\<open>catch\<close> that logs,
  and the \<^verbatim>\<open>finally\<close> that clears the guard.\<close>

definition handleFileChange ::
  "collaborators \<Rightarrow> path \<Rightarrow> string \<Rightarrow> 'a SelfEvolvingTestSuite_scheme \<Rightarrow> 'a SelfEvolvingTestSuite_scheme" where
  "handleFileChange C filePath event s =
     (if isEvolving s then console_log ''Evolution already in progress, queuing change...'' s
      else
        (case handleFileChange_try C filePath event
                ((console_log (''File '' @ event @ '': '' @ path_string filePath) s)\<lparr>isEvolving := True\<rparr>) of
           (Inl e, s1) \<Rightarrow> (console_error ''Error during evolution:'' (Some e) s1)\<lparr>isEvolving := False\<rparr>
         | (Inr u, s1) \<Rightarrow> s1\<lparr>isEvolving := False\<rparr>))"

text \<open>\<^verbatim>\<open>getMetrics\<close>; \<^verbatim>\<open>lastEvolution\<close> is null for an empty history.\<close>

record Metrics =
  totalTests :: nat
  autoGeneratedTests :: nat
  coverage :: real
  lastEvolution :: "nat option"

definition getMetrics :: "'a SelfEvolvingTestSuite_scheme \<Rightarrow> Metrics" where
  "getMetrics s =
     (let tests = getTestCases (testEvolver s);
          history = getEvolutionHistory (testEvolver s)
      in \<lparr>totalTests = length tests,
          autoGeneratedTests = length (filter autoGenerated tests),
          coverage = (if length history > 0 then coverage_after (history ! (length history - 1)) else 0),
          lastEvolution = (if length history > 0 then Some (evolved_at (history ! (length history - 1)))
                           else None)\<rparr>)"

subsection \<open>Notions used to state the properties\<close>

text \<open>The endpoints that \<^verbatim>\<open>analyzeFile\<close> extracts from a file of a given file system,
  and the set of display strings of a list of source files.\<close>

definition endpoints_of :: "env \<Rightarrow> fsnode \<Rightarrow> path \<Rightarrow> APIEndpoint list" where
  "endpoints_of E tree f =
     (case fst (analyzeFile E f \<lparr>fs = tree, console = [], endpointCache = Map.empty\<rparr>) of
        Inl e \<Rightarrow> []
      | Inr endpoints \<Rightarrow> endpoints)"

definition inventory :: "env \<Rightarrow> fsnode \<Rightarrow> path list \<Rightarrow> string set" where
  "inventory E tree sourceFiles =
     (\<Union>f \<in> set sourceFiles. display_string ` set (endpoints_of E tree f))"

text \<open>The display strings of a set that occur in a text as a literal substring.\<close>

definition covered :: "string \<Rightarrow> string set \<Rightarrow> string set" where
  "covered txt D = {d \<in> D. \<exists>a b. txt = a @ d @ b}"

text \<open>The value the coverage estimator computes from a test content and a set of
  display strings, and the content of a file.\<close>

definition coverage_value :: "string \<Rightarrow> string set \<Rightarrow> real" where
  "coverage_value txt D =
     (if D = {} then 100 else 100 * real (card (covered txt D)) / real (card D))"

definition content_of :: "fsnode \<Rightarrow> path \<Rightarrow> string" where
  "content_of tree f = (case readFileSync tree f of Inl e \<Rightarrow> [] | Inr c \<Rightarrow> c)"

text \<open>Every regular file below a directory, and the regular files at or below the test
  paths whose name ends with \<^verbatim>\<open>.test.js\<close> or \<^verbatim>\<open>.spec.js\<close>, wherever they are.\<close>

fun files_below :: "path \<Rightarrow> (string \<times> fsnode) list \<Rightarrow> path list" where
  "files_below dir [] = []"
| "files_below dir ((entry, Dir es) # entries) =
     files_below (join dir entry) es @ files_below dir entries"
| "files_below dir ((entry, File c) # entries) = join dir entry # files_below dir entries"

definition files_at :: "fsnode \<Rightarrow> path \<Rightarrow> path list" where
  "files_at tree p =
     (case lookup tree p of
        None \<Rightarrow> []
      | Some (Dir es) \<Rightarrow> files_below p es
      | Some (File c) \<Rightarrow> [p])"

definition test_named :: "path \<Rightarrow> bool" where
  "test_named f = (f \<noteq> [] \<and> (endsWith (last f) ''.test.js'' \<or> endsWith (last f) ''.spec.js''))"

definition named_test_files :: "fsnode \<Rightarrow> EvolutionConfig \<Rightarrow> path list" where
  "named_test_files tree cfg =
     concat (map (\<lambda>testPath. filter test_named (files_at tree testPath)) (testPaths cfg))"

text \<open>The files found from a path, said without the walk: the path itself when it is a
  regular file, whatever its name; below a directory, the regular files whose name ends
  with one of the extensions and that are reached through directories whose name neither
  starts with a dot nor is \<^verbatim>\<open>node_modules\<close>. The source files and the test files of a
  configuration are the files found from its watch paths and from its test paths.\<close>

definition reached :: "path \<Rightarrow> path \<Rightarrow> bool" where
  "reached dir f =
     (\<forall>seg \<in> set (butlast (drop (length dir) f)). \<not> startsWith seg ''.'' \<and> seg \<noteq> ''node_modules'')"

definition found_files :: "fsnode \<Rightarrow> string list \<Rightarrow> path \<Rightarrow> path list" where
  "found_files tree extensions p =
     (case lookup tree p of
        None \<Rightarrow> []
      | Some (File c) \<Rightarrow> [p]
      | Some (Dir es) \<Rightarrow>
          filter (\<lambda>f. (\<exists>ext \<in> set extensions. endsWith (last f) ext) \<and> reached p f)
            (files_below p es))"

definition source_files :: "fsnode \<Rightarrow> EvolutionConfig \<Rightarrow> path list" where
  "source_files tree cfg = concat (map (found_files tree [''.js'', ''.ts'']) (watchPaths cfg))"

definition test_files :: "fsnode \<Rightarrow> EvolutionConfig \<Rightarrow> path list" where
  "test_files tree cfg =
     concat (map (found_files tree [''.test.js'', ''.spec.js'']) (testPaths cfg))"

text \<open>A directory lists each name once.\<close>

fun wf_fs :: "fsnode \<Rightarrow> bool" where
  "wf_fs (File c) = True"
| "wf_fs (Dir es) = (distinct (map fst es) \<and> (\<forall>e \<in> set es. wf_fs (snd e)))"

text \<open>The previous extraction held in the cache, and the difference of two extractions by
  the identity (method, path): the additions in the order of the current list, then the
  removals in the order of the previous list.\<close>

definition cached :: "'a CodeAnalyzer_scheme \<Rightarrow> path \<Rightarrow> APIEndpoint list" where
  "cached s f = (case endpointCache s f of None \<Rightarrow> [] | Some endpoints \<Rightarrow> endpoints)"

definition endpoint_diff :: "APIEndpoint list \<Rightarrow> APIEndpoint list \<Rightarrow> Change list" where
  "endpoint_diff previous current =
     map addition
       (filter (\<lambda>x. \<forall>e \<in> set previous. (method e, path e) \<noteq> (method x, path x)) current) @
     map removal
       (filter (\<lambda>x. \<forall>e \<in> set current. (method e, path e) \<noteq> (method x, path x)) previous)"

text \<open>The endpoints that the visitors push for a list of visited nodes, when none of them
  throws.\<close>

definition pushed :: "env \<Rightarrow> visit list \<Rightarrow> APIEndpoint list" where
  "pushed E visits =
     concat (map (\<lambda>v. case visitor E v of Inr (Some ep) \<Rightarrow> [ep] | _ \<Rightarrow> []) visits)"

subsection \<open>A small project, for concrete runs\<close>

text \<open>A parser that knows one Express source, and a tree with a Flask source, an empty
  source, an Express source, two test files and a text file. The traversal is started
  without a state, so that \<^verbatim>\<open>this\<close> is undefined inside the visitors and the call
  \<^verbatim>\<open>this.extractDescription(path)\<close> throws a TypeError.\<close>

definition demo_env :: env where
  "demo_env =
     \<lparr>parse_traverse =
        (\<lambda>src. if src = ''app.get('/users', h)''
               then ([CallExpression (MemberExpression (Identifier ''app'') (Identifier ''get''))
                        [StringLiteral ''/users'', Identifier ''h''] None], None)
               else ([], None)),
      this_extractDescription =
        (\<lambda>comments. Inl (TypeError ''Cannot read properties of undefined'')),
      now = 0\<rparr>"

definition demo_fs :: fsnode where
  "demo_fs = Dir [(''src'', Dir [(''api.py'', File ''@app.get('/users') @app.post('/users')''),
                                 (''empty.py'', File []),
                                 (''server.js'', File ''app.get('/users', h)'')]),
                  (''tests'', Dir [(''users.test.js'', File ''it covers GET /users only''),
                                   (''other.spec.js'', File ''nothing here'')]),
                  (''README.md'', File ''SETS demo'')]"

definition demo_analyzer :: CodeAnalyzer where
  "demo_analyzer = \<lparr>fs = demo_fs, console = [], endpointCache = Map.empty\<rparr>"

text \<open>Surroundings in which the parser rejects every input.\<close>

definition failing_env :: env where
  "failing_env = \<lparr>parse_traverse = (\<lambda>src. ([], Some (Thrown ''SyntaxError''))),
                  this_extractDescription =
                    (\<lambda>comments. Inl (TypeError ''Cannot read properties of undefined'')),
                  now = 0\<rparr>"

text \<open>Two test cases for the same route.\<close>

definition demo_get :: TestCase where
  "demo_get = \<lparr>id_of = ''test-1'', name = ''GET /users'',
                endpoint = \<lparr>path = ''/users'', method = ''GET'', description = None\<rparr>,
                input = ''{}'', assertions = [''status 200''], autoGenerated = True\<rparr>"

definition demo_post :: TestCase where
  "demo_post = \<lparr>id_of = ''test-2'', name = ''POST /users'',
                 endpoint = \<lparr>path = ''/users'', method = ''POST'', description = None\<rparr>,
                 input = ''{}'', assertions = [''status 201''], autoGenerated = True\<rparr>"

text \<open>A generator whose template and serialisation are short, and a world for the
  generator to log in.\<close>

definition demo_generator :: "(string \<Rightarrow> error + Choice list) option \<Rightarrow> TestGenerator" where
  "demo_generator client =
     \<lparr>openai = client,
      stringify_testCase = (\<lambda>tc. Inr (name tc)),
      generateWithTemplate = (\<lambda>tc. ''describe('' @ name tc @ '')'')\<rparr>"

definition demo_world :: world where
  "demo_world = \<lparr>fs = demo_fs, console = []\<rparr>"

text \<open>An evolver for the small project, which adds one test case for each added endpoint,
  the orchestrator's surroundings and an idle orchestrator.\<close>

definition demo_evolve ::
  "CodeChange list \<Rightarrow> real \<Rightarrow> real \<Rightarrow> TestEvolver \<Rightarrow> (error + Evolution) \<times> TestEvolver" where
  "demo_evolve code_changes currentCoverage target ev =
     (let added_endpoints = concat (map (\<lambda>cc. concat (map (\<lambda>ch. case after ch of None \<Rightarrow> [] | Some e \<Rightarrow> [e])
                                                        (changes cc))) code_changes);
          new_cases = map (\<lambda>e. \<lparr>id_of = display_string e, name = display_string e, endpoint = e,
                                 input = [], assertions = [], autoGenerated = True\<rparr>) added_endpoints;
          evolution = \<lparr>version = length (evolutionHistory ev) + 1,
                       reason = ''Evolving test suite to meet coverage target'',
                       actions = map (\<lambda>tc. \<lparr>action_type = Added, testId = id_of tc,
                                              action_reason = ''New endpoint detected: '' @ name tc,
                                              details = tc\<rparr>) new_cases,
                       coverage_before = currentCoverage, coverage_after = target,
                       evolved_at = 0\<rparr>
      in (Inr evolution, ev\<lparr>testCases := testCases ev @ new_cases,
                             evolutionHistory := evolutionHistory ev @ [evolution]\<rparr>))"

definition demo_collaborators :: collaborators where
  "demo_collaborators =
     \<lparr>analyzer_env = demo_env, generator = demo_generator None,
      testEvolver_evolveTestSuite = demo_evolve,
      stringify_history = (\<lambda>history. ''[]''),
      git_add = None, git_commit = (\<lambda>msg. None)\<rparr>"

definition demo_suite :: SelfEvolvingTestSuite where
  "demo_suite =
     \<lparr>fs = demo_fs, console = [], endpointCache = Map.empty,
      config = \<lparr>watchPaths = [[''src'']], testPaths = [[''tests'']], coverageTarget = 80,
                gitEnabled = False\<rparr>,
      testEvolver = \<lparr>testCases = [], evolutionHistory = []\<rparr>,
      git = False, fileSnapshots = Map.empty, isEvolving = False\<rparr>"



definition empty_suite :: SelfEvolvingTestSuite where
  "empty_suite = demo_suite\<lparr>fs := Dir [(''src'', Dir []), (''tests'', Dir [])]\<rparr>"

definition throwing_collaborators :: collaborators where
  "throwing_collaborators =
     demo_collaborators\<lparr>testEvolver_evolveTestSuite :=
       (\<lambda>code_changes currentCoverage target ev. (Inl (Thrown ''evolver failed''), ev))\<rparr>"

definition evolved_suite :: SelfEvolvingTestSuite where
  "evolved_suite =
     demo_suite\<lparr>testEvolver :=
       \<lparr>testCases = [demo_get, demo_post\<lparr>autoGenerated := False\<rparr>],
        evolutionHistory =
          [\<lparr>version = 1, reason = ''first'', actions = [], coverage_before = 0,
            coverage_after = 40, evolved_at = 10\<rparr>,
           \<lparr>version = 2, reason = ''second'', actions = [], coverage_before = 40,
            coverage_after = 75, evolved_at = 20\<rparr>]\<rparr>\<rparr>"

text \<open>The small project watched through its Flask source alone; a project whose test path
  is a text file; a project whose test files are below \<^verbatim>\<open>node_modules\<close> and a
  dot-directory.\<close>

definition flask_suite :: SelfEvolvingTestSuite where
  "flask_suite =
     demo_suite\<lparr>config := \<lparr>watchPaths = [[''src'', ''api.py'']], testPaths = [[''tests'']],
                            coverageTarget = 80, gitEnabled = False\<rparr>\<rparr>"

definition readme_suite :: SelfEvolvingTestSuite where
  "readme_suite =
     demo_suite\<lparr>fs := Dir [(''src'', Dir []), (''README.md'', File ''SETS demo'')],
                config := \<lparr>watchPaths = [[''src'']], testPaths = [[''README.md'']],
                            coverageTarget = 80, gitEnabled = False\<rparr>\<rparr>"

definition hidden_suite :: SelfEvolvingTestSuite where
  "hidden_suite =
     demo_suite\<lparr>fs := Dir [(''src'', Dir []),
                           (''tests'', Dir [(''node_modules'', Dir [(''a.test.js'', File ''GET /a'')]),
                                            (''.cache'', Dir [(''b.spec.js'', File ''GET /b'')])])]\<rparr>"

section \<open>Properties\<close>

subsection \<open>Strings and sets\<close>

lemma startsWith_iff: "startsWith s p \<longleftrightarrow> (\<exists>b. s = p @ b)"
  by (induction s p rule: startsWith.induct) auto

lemma includes_str_iff: "includes_str s p \<longleftrightarrow> (\<exists>a b. s = a @ p @ b)"
proof (induction s)
  case Nil
  then show ?case by auto
next
  case (Cons c cs)
  show ?case
  proof
    assume "includes_str (c # cs) p"
    then consider "startsWith (c # cs) p" | "includes_str cs p" by auto
    then show "\<exists>a b. c # cs = a @ p @ b"
    proof cases
      case 1
      then obtain b where "c # cs = p @ b" by (auto simp: startsWith_iff)
      then have "c # cs = [] @ p @ b" by simp
      then show ?thesis by blast
    next
      case 2
      then obtain a b where "cs = a @ p @ b" using Cons.IH by auto
      then have "c # cs = (c # a) @ p @ b" by simp
      then show ?thesis by blast
    qed
  next
    assume "\<exists>a b. c # cs = a @ p @ b"
    then obtain a b where ab: "c # cs = a @ p @ b" by blast
    show "includes_str (c # cs) p"
    proof (cases a)
      case Nil
      with ab have "startsWith (c # cs) p" by (auto simp: startsWith_iff)
      then show ?thesis by simp
    next
      case (Cons x a')
      with ab have "cs = a' @ p @ b" by simp
      then have "includes_str cs p" using Cons.IH by blast
      then show ?thesis by simp
    qed
  qed
qed

lemma set_fold_set_add: "set (fold set_add xs acc) = set xs \<union> set acc"
  by (induction xs arbitrary: acc) (auto simp: set_add_def)

lemma distinct_fold_set_add: "distinct acc \<Longrightarrow> distinct (fold set_add xs acc)"
  by (induction xs arbitrary: acc) (auto simp: set_add_def)

lemma fold_set_add_distinct: "distinct xs \<Longrightarrow> fold set_add xs [] = xs"
proof -
  have "distinct (acc @ xs) \<Longrightarrow> fold set_add xs acc = acc @ xs" for acc
    by (induction xs arbitrary: acc) (auto simp: set_add_def)
  from this [of "[]"] show "distinct xs \<Longrightarrow> fold set_add xs [] = xs" by simp
qed

lemma analyzeJavaScript_fs: "fs (snd (analyzeJavaScript E src f s)) = fs s"
  by (simp add: analyzeJavaScript_def console_error_def split: prod.splits option.splits)

lemma analyzeFile_fs: "fs (snd (analyzeFile E f s)) = fs s"
  by (simp add: analyzeFile_def analyzePython_def analyzeJavaScript_fs Let_def split: sum.splits)

subsection \<open>The coverage estimator\<close>

lemma analyzeJavaScript_fst: "fst (analyzeJavaScript E src f s) = Inr (snd (analyzeJavaScript_try E src))"
  by (simp add: analyzeJavaScript_def Let_def split: prod.splits)

lemma analyzeFile_readable:
  assumes "readFileSync (fs s) f = Inr c"
  shows "fst (analyzeFile E f s) = Inr (endpoints_of E (fs s) f)"
  using assms
  by (simp add: endpoints_of_def analyzeFile_def analyzePython_def analyzeJavaScript_fst Let_def)

lemma collect_endpoints_inventory:
  assumes "\<forall>f \<in> set files. \<exists>c. readFileSync (fs s) f = Inr c" and "distinct acc"
  shows "\<exists>acc' s'. collect_endpoints E files acc s = (Inr acc', s') \<and> fs s' = fs s \<and>
           distinct acc' \<and> set acc' = set acc \<union> inventory E (fs s) files"
  using assms
proof (induction files arbitrary: acc s)
  case Nil
  then show ?case by (simp add: inventory_def)
next
  case (Cons f files)
  from Cons.prems obtain c where c: "readFileSync (fs s) f = Inr c" by auto
  obtain r s1 where a: "analyzeFile E f s = (r, s1)" by (cases "analyzeFile E f s")
  with analyzeFile_readable [OF c, of E] analyzeFile_fs [of E f s]
  have r: "r = Inr (endpoints_of E (fs s) f)" and s1: "fs s1 = fs s" by auto
  let ?acc1 = "fold set_add (map display_string (endpoints_of E (fs s) f)) acc"
  have "distinct ?acc1" using Cons.prems(2) by (rule distinct_fold_set_add)
  moreover have "\<forall>g \<in> set files. \<exists>c. readFileSync (fs s1) g = Inr c"
    using Cons.prems(1) s1 by simp
  ultimately obtain acc' s' where
    ih: "collect_endpoints E files ?acc1 s1 = (Inr acc', s')" "fs s' = fs s1" "distinct acc'"
      "set acc' = set ?acc1 \<union> inventory E (fs s1) files"
    using Cons.IH [of s1 ?acc1] by blast
  have "collect_endpoints E (f # files) acc s = (Inr acc', s')"
    using a r ih(1) by simp
  moreover have "set acc' = set acc \<union> inventory E (fs s) (f # files)"
    using ih(4) s1 by (auto simp: set_fold_set_add inventory_def)
  ultimately show ?case using ih(2,3) s1 by auto
qed

lemma display_string_nonempty: "display_string e \<noteq> []"
  by (simp add: display_string_def)

lemma finite_inventory: "finite (inventory E tree files)"
  by (simp add: inventory_def)

lemma collect_endpoints_fs: "fs (snd (collect_endpoints E files acc s)) = fs s"
proof (induction files arbitrary: acc s)
  case Nil
  then show ?case by simp
next
  case (Cons f files)
  obtain r s1 where a: "analyzeFile E f s = (r, s1)" by (cases "analyzeFile E f s")
  with analyzeFile_fs [of E f s] have "fs s1 = fs s" by simp
  with a Cons.IH show ?case by (cases r) auto
qed

lemma calculateCoverage_fs: "fs (snd (calculateCoverage E t srcs s)) = fs s"
  using collect_endpoints_fs [of E srcs "[]" s]
  by (auto simp: calculateCoverage_def Let_def split: sum.splits prod.splits)

lemma calculateCoverage_readable:
  assumes "readFileSync (fs s) testFile = Inr testContent"
    and "\<forall>f \<in> set sourceFiles. \<exists>c. readFileSync (fs s) f = Inr c"
  shows "fst (calculateCoverage E testFile sourceFiles s) =
           Inr (coverage_value testContent (inventory E (fs s) sourceFiles))"
proof -
  let ?D = "inventory E (fs s) sourceFiles"
  from collect_endpoints_inventory [OF assms(2), of "[]" E]
  obtain all s' where
    c: "collect_endpoints E sourceFiles [] s = (Inr all, s')" "distinct all" "set all = ?D"
    by auto
  let ?tested = "filter (includes_str testContent) all"
  have t: "fold set_add ?tested [] = ?tested"
    using c(2) by (simp add: fold_set_add_distinct)
  have st: "set ?tested = covered testContent ?D"
    using c(3) by (auto simp: covered_def includes_str_iff)
  have lt: "length ?tested = card (covered testContent ?D)"
    using c(2) st distinct_card [of ?tested] by simp
  have la: "length all = card ?D"
    using c(2,3) distinct_card [of all] by simp
  show ?thesis
    using assms(1) c(1) c(3) t lt la
    by (auto simp: calculateCoverage_def coverage_value_def Let_def)
qed

lemma coverage_value_bounds: "0 \<le> coverage_value txt D \<and> coverage_value txt D \<le> 100"
proof (cases "finite D \<and> D \<noteq> {}")
  case True
  then have "card (covered txt D) \<le> card D" and "0 < card D"
    by (auto simp: covered_def card_gt_0_iff intro: card_mono)
  then show ?thesis by (simp add: coverage_value_def field_simps)
next
  case False
  then show ?thesis by (auto simp: coverage_value_def)
qed

text \<open>
  Claim C1. For a readable test file and readable source files, \<^verbatim>\<open>calculateCoverage\<close>
  returns 100 when the set of distinct display strings \<^verbatim>\<open>METHOD path\<close> collected from
  the sources is empty, and otherwise 100 times the number of those display strings that
  occur as a literal substring of the test file's content, divided by the number of
  display strings. The result lies between 0 and 100, and it is 0 for an empty test
  content and a non-empty set of display strings.
\<close>

theorem calculateCoverage_value:
  assumes "readFileSync (fs s) testFile = Inr testContent"
    and "\<forall>f \<in> set sourceFiles. \<exists>c. readFileSync (fs s) f = Inr c"
  shows "\<exists>r. fst (calculateCoverage E testFile sourceFiles s) = Inr r \<and>
           r = (if inventory E (fs s) sourceFiles = {} then 100
                else 100 * real (card (covered testContent (inventory E (fs s) sourceFiles)))
                       / real (card (inventory E (fs s) sourceFiles))) \<and>
           0 \<le> r \<and> r \<le> 100 \<and>
           (testContent = [] \<and> inventory E (fs s) sourceFiles \<noteq> {} \<longrightarrow> r = 0)"
proof -
  let ?D = "inventory E (fs s) sourceFiles"
  have "covered [] ?D = {}"
    using display_string_nonempty by (auto simp: covered_def inventory_def) metis
  then have "testContent = [] \<and> ?D \<noteq> {} \<longrightarrow> coverage_value testContent ?D = 0"
    by (simp add: coverage_value_def)
  with calculateCoverage_readable [OF assms, of E] coverage_value_bounds [of testContent ?D]
  show ?thesis by (simp add: coverage_value_def)
qed

lemma demo_endpoints:
  "endpoints_of demo_env demo_fs [''src'', ''api.py''] =
     [\<lparr>path = ''/users'', method = ''GET'', description = None\<rparr>,
      \<lparr>path = ''/users'', method = ''POST'', description = None\<rparr>]"
  by (simp add: endpoints_of_def analyzeFile_def readFileSync_def demo_fs_def extname_def
      extname_segment_def analyzePython_def match_route_def toUpperCase_def toUpperCase_char_def
      isQuote_def Let_def)

lemma demo_inventory:
  "inventory demo_env demo_fs [[''src'', ''api.py'']] = {''GET /users'', ''POST /users''}"
  by (simp add: inventory_def demo_endpoints display_string_def)

lemma covered_empty: "covered c {} = {}"
  by (simp add: covered_def)

lemma covered_insert:
  "covered c (insert d D) = (if includes_str c d then insert d (covered c D) else covered c D)"
  by (auto simp: covered_def includes_str_iff)

lemma demo_covered:
  "covered ''it covers GET /users only'' {''GET /users'', ''POST /users''} = {''GET /users''}"
  by (simp add: covered_insert covered_empty)

theorem calculateCoverage_value_witness:
  "readFileSync (fs demo_analyzer) [''tests'', ''users.test.js''] = Inr ''it covers GET /users only'' \<and>
   readFileSync (fs demo_analyzer) [''src'', ''api.py''] = Inr ''@app.get('/users') @app.post('/users')'' \<and>
   fst (calculateCoverage demo_env [''tests'', ''users.test.js''] [[''src'', ''api.py'']] demo_analyzer) = Inr 50"
proof -
  have h1: "readFileSync (fs demo_analyzer) [''tests'', ''users.test.js''] = Inr ''it covers GET /users only''"
    by (simp add: demo_analyzer_def demo_fs_def readFileSync_def)
  have h2: "readFileSync (fs demo_analyzer) [''src'', ''api.py''] = Inr ''@app.get('/users') @app.post('/users')''"
    by (simp add: demo_analyzer_def demo_fs_def readFileSync_def)
  have h3: "\<forall>f \<in> set [[''src'', ''api.py'']]. \<exists>c. readFileSync (fs demo_analyzer) f = Inr c"
    using h2 by simp
  have f: "fs demo_analyzer = demo_fs" by (simp add: demo_analyzer_def)
  from calculateCoverage_value [OF h1 h3, of demo_env] h1 h2 show ?thesis
    unfolding f demo_inventory demo_covered by simp
qed

subsection \<open>The endpoint extractor\<close>

text \<open>What the traversal leaves behind: when every visitor returns, no error and the
  endpoints pushed; when a visitor throws after visitors that returned, its error and the
  endpoints pushed before it.\<close>

lemma run_visitors_all:
  "\<forall>u \<in> set visits. \<exists>r. visitor E u = Inr r \<Longrightarrow>
     run_visitors E visits acc = (None, acc @ pushed E visits)"
proof (induction visits arbitrary: acc)
  case Nil
  then show ?case by (simp add: pushed_def)
next
  case (Cons v visits)
  then obtain r where r: "visitor E v = Inr r" by auto
  from Cons have ih: "run_visitors E visits acc' = (None, acc' @ pushed E visits)" for acc'
    by simp
  show ?case
    using r ih by (cases r) (simp_all add: pushed_def)
qed

lemma run_visitors_throw:
  "\<forall>u \<in> set pre. \<exists>r. visitor E u = Inr r \<Longrightarrow> visitor E v = Inl e \<Longrightarrow>
     run_visitors E (pre @ v # post) acc = (Some e, acc @ pushed E pre)"
proof (induction pre arbitrary: acc)
  case Nil
  then show ?case by (simp add: pushed_def)
next
  case (Cons u pre)
  then obtain r where r: "visitor E u = Inr r" by auto
  from Cons have ih: "run_visitors E (pre @ v # post) acc' = (Some e, acc' @ pushed E pre)" for acc'
    by simp
  show ?case
    using r ih by (cases r) (simp_all add: pushed_def)
qed

text \<open>
  Claim C7. \<^verbatim>\<open>analyzeJavaScript\<close> never propagates an exception: it returns a list of
  endpoints whatever the parser, the traversal and the visitors do. When a visitor throws,
  the error of the first visitor that throws is logged on the console and the endpoints
  pushed before it are returned; when the visitors return and the parser or the traversal
  ends with an error, that error is logged and the endpoints pushed are returned; when
  nothing throws, nothing is logged. For a readable file whose extension is none of
  \<^verbatim>\<open>.js\<close>, \<^verbatim>\<open>.ts\<close>, \<^verbatim>\<open>.py\<close>, \<^verbatim>\<open>analyzeFile\<close> returns the empty list and changes
  nothing.
\<close>

theorem analyzer_fails_closed:
  assumes "parse_traverse E src = (visits, ended)"
  shows "(\<exists>endpoints s'. analyzeJavaScript E src filePath s = (Inr endpoints, s') \<and>
      (\<forall>pre v post e.
         visits = pre @ v # post \<and> (\<forall>u \<in> set pre. \<exists>r. visitor E u = Inr r) \<and>
         visitor E v = Inl e \<longrightarrow>
           endpoints = pushed E pre \<and>
           console s' = console s @
             [ConsoleError (''Error parsing '' @ path_string filePath @ '':'') (Some e)]) \<and>
      (\<forall>e. (\<forall>u \<in> set visits. \<exists>r. visitor E u = Inr r) \<and> ended = Some e \<longrightarrow>
           endpoints = pushed E visits \<and>
           console s' = console s @
             [ConsoleError (''Error parsing '' @ path_string filePath @ '':'') (Some e)]) \<and>
      ((\<forall>u \<in> set visits. \<exists>r. visitor E u = Inr r) \<and> ended = None \<longrightarrow>
           endpoints = pushed E visits \<and> console s' = console s) \<and>
      ((\<exists>v \<in> set visits. \<exists>e. visitor E v = Inl e) \<or> ended \<noteq> None \<longrightarrow>
           (\<exists>e. console s' = console s @
             [ConsoleError (''Error parsing '' @ path_string filePath @ '':'') (Some e)]))) \<and>
   (readFileSync (fs s) f = Inr c \<and> extname f \<notin> {''.js'', ''.ts'', ''.py''} \<longrightarrow>
      analyzeFile E f s = (Inr [], s))"
proof
  let ?msg = "''Error parsing '' @ path_string filePath @ '':''"
  let ?entry = "\<lambda>e. ConsoleError ?msg (Some e)"
  obtain thrown endpoints where t: "analyzeJavaScript_try E src = (thrown, endpoints)"
    by (cases "analyzeJavaScript_try E src")
  obtain s' where s': "analyzeJavaScript E src filePath s = (Inr endpoints, s')"
    and log: "console s' = (case thrown of None \<Rightarrow> console s | Some e \<Rightarrow> console s @ [?entry e])"
    using t by (cases thrown) (simp_all add: analyzeJavaScript_def console_error_def Let_def)
  have throwing: "thrown = Some e \<and> endpoints = pushed E pre"
    if "visits = pre @ v # post" "\<forall>u \<in> set pre. \<exists>r. visitor E u = Inr r" "visitor E v = Inl e"
    for pre v post e
    using t assms that run_visitors_throw [OF that(2,3), of post "[]"]
    by (simp add: analyzeJavaScript_try_def)
  have returning: "thrown = ended \<and> endpoints = pushed E visits"
    if "\<forall>u \<in> set visits. \<exists>r. visitor E u = Inr r"
    using t assms run_visitors_all [OF that, of "[]"]
    by (simp add: analyzeJavaScript_try_def)
  have some: "\<exists>e. thrown = Some e"
    if "(\<exists>v \<in> set visits. \<exists>e. visitor E v = Inl e) \<or> ended \<noteq> None"
  proof (cases "\<exists>v \<in> set visits. \<exists>e. visitor E v = Inl e")
    case True
    then obtain pre v post where
      d: "visits = pre @ v # post" "\<exists>e. visitor E v = Inl e" "\<forall>u \<in> set pre. \<not> (\<exists>e. visitor E u = Inl e)"
      using split_list_first_prop [of visits "\<lambda>v. \<exists>e. visitor E v = Inl e"] by blast
    then obtain e where e: "visitor E v = Inl e" by blast
    from d(3) have "\<forall>u \<in> set pre. \<exists>r. visitor E u = Inr r"
      by (metis sum.exhaust)
    from throwing [OF d(1) this e] show ?thesis by blast
  next
    case False
    then have "\<forall>u \<in> set visits. \<exists>r. visitor E u = Inr r" by (metis sum.exhaust)
    with returning that False show ?thesis by auto
  qed
  show "\<exists>endpoints s'. analyzeJavaScript E src filePath s = (Inr endpoints, s') \<and>
      (\<forall>pre v post e.
         visits = pre @ v # post \<and> (\<forall>u \<in> set pre. \<exists>r. visitor E u = Inr r) \<and>
         visitor E v = Inl e \<longrightarrow>
           endpoints = pushed E pre \<and> console s' = console s @ [?entry e]) \<and>
      (\<forall>e. (\<forall>u \<in> set visits. \<exists>r. visitor E u = Inr r) \<and> ended = Some e \<longrightarrow>
           endpoints = pushed E visits \<and> console s' = console s @ [?entry e]) \<and>
      ((\<forall>u \<in> set visits. \<exists>r. visitor E u = Inr r) \<and> ended = None \<longrightarrow>
           endpoints = pushed E visits \<and> console s' = console s) \<and>
      ((\<exists>v \<in> set visits. \<exists>e. visitor E v = Inl e) \<or> ended \<noteq> None \<longrightarrow>
           (\<exists>e. console s' = console s @ [?entry e]))"
  proof (rule exI [of _ endpoints], rule exI [of _ s'], intro conjI allI impI)
    show "analyzeJavaScript E src filePath s = (Inr endpoints, s')" by (rule s')
  next
    fix pre v post e
    assume a: "visits = pre @ v # post \<and> (\<forall>u \<in> set pre. \<exists>r. visitor E u = Inr r) \<and> visitor E v = Inl e"
    with throwing [of pre v post e] show "endpoints = pushed E pre" by blast
    from a throwing [of pre v post e] log show "console s' = console s @ [?entry e]" by simp
  next
    fix e
    assume a: "(\<forall>u \<in> set visits. \<exists>r. visitor E u = Inr r) \<and> ended = Some e"
    with returning show "endpoints = pushed E visits" by blast
    from a returning log show "console s' = console s @ [?entry e]" by simp
  next
    assume a: "(\<forall>u \<in> set visits. \<exists>r. visitor E u = Inr r) \<and> ended = None"
    with returning show "endpoints = pushed E visits" by blast
    from a returning log show "console s' = console s" by simp
  next
    assume "(\<exists>v \<in> set visits. \<exists>e. visitor E v = Inl e) \<or> ended \<noteq> None"
    from some [OF this] log show "\<exists>e. console s' = console s @ [?entry e]" by auto
  qed
next
  show "readFileSync (fs s) f = Inr c \<and> extname f \<notin> {''.js'', ''.ts'', ''.py''} \<longrightarrow>
      analyzeFile E f s = (Inr [], s)"
    by (simp add: analyzeFile_def)
qed


theorem analyzer_fails_closed_witness:
  "parse_traverse demo_env ''app.get('/users', h)'' =
     ([CallExpression (MemberExpression (Identifier ''app'') (Identifier ''get''))
         [StringLiteral ''/users'', Identifier ''h''] None], None) \<and>
   visitor demo_env (CallExpression (MemberExpression (Identifier ''app'') (Identifier ''get''))
         [StringLiteral ''/users'', Identifier ''h''] None) =
     Inl (TypeError ''Cannot read properties of undefined'') \<and>
   fst (analyzeJavaScript demo_env ''app.get('/users', h)'' [''src'', ''server.js''] demo_analyzer) =
     Inr [] \<and>
   console (snd (analyzeJavaScript demo_env ''app.get('/users', h)'' [''src'', ''server.js'']
                   demo_analyzer)) =
     [ConsoleError ''Error parsing src/server.js:''
        (Some (TypeError ''Cannot read properties of undefined''))] \<and>
   parse_traverse failing_env ''app.get('' = ([], Some (Thrown ''SyntaxError'')) \<and>
   fst (analyzeJavaScript failing_env ''app.get('' [''src'', ''bad.js''] demo_analyzer) = Inr [] \<and>
   console (snd (analyzeJavaScript failing_env ''app.get('' [''src'', ''bad.js''] demo_analyzer)) =
     [ConsoleError ''Error parsing src/bad.js:'' (Some (Thrown ''SyntaxError''))] \<and>
   parse_traverse demo_env ''const x = 1'' = ([], None) \<and>
   console (snd (analyzeJavaScript demo_env ''const x = 1'' [''src'', ''plain.js''] demo_analyzer)) = [] \<and>
   readFileSync (fs demo_analyzer) [''README.md''] = Inr ''SETS demo'' \<and>
   extname [''README.md''] \<notin> {''.js'', ''.ts'', ''.py''} \<and>
   analyzeFile failing_env [''README.md''] demo_analyzer = (Inr [], demo_analyzer)"
proof -
  let ?node = "CallExpression (MemberExpression (Identifier ''app'') (Identifier ''get''))
                 [StringLiteral ''/users'', Identifier ''h''] None"
  let ?err = "TypeError ''Cannot read properties of undefined''"
  have c: "console demo_analyzer = []" by (simp add: demo_analyzer_def)
  have p1: "parse_traverse demo_env ''app.get('/users', h)'' = ([?node], None)"
    by (simp add: demo_env_def)
  have v1: "visitor demo_env ?node = Inl ?err"
    by (simp add: demo_env_def)
  have r1: "fst (analyzeJavaScript demo_env ''app.get('/users', h)'' [''src'', ''server.js'']
               demo_analyzer) = Inr [] \<and>
      console (snd (analyzeJavaScript demo_env ''app.get('/users', h)'' [''src'', ''server.js'']
                      demo_analyzer)) =
        [ConsoleError ''Error parsing src/server.js:'' (Some ?err)]"
    using analyzer_fails_closed [OF p1, of "[''src'', ''server.js'']" demo_analyzer, THEN conjunct1]
  proof (elim exE conjE)
    fix endpoints s'
    assume a: "analyzeJavaScript demo_env ''app.get('/users', h)'' [''src'', ''server.js'']
        demo_analyzer = (Inr endpoints, s')"
      and t: "\<forall>pre v post e.
         [?node] = pre @ v # post \<and> (\<forall>u \<in> set pre. \<exists>r. visitor demo_env u = Inr r) \<and>
         visitor demo_env v = Inl e \<longrightarrow>
           endpoints = pushed demo_env pre \<and>
           console s' = console demo_analyzer @
             [ConsoleError (''Error parsing '' @ path_string [''src'', ''server.js''] @ '':'') (Some e)]"
    from t [rule_format, of "[]" ?node "[]" ?err] v1 c
    have "endpoints = []" "console s' = [ConsoleError ''Error parsing src/server.js:'' (Some ?err)]"
      by (simp_all add: pushed_def)
    with a show ?thesis by simp
  qed
  have p2: "parse_traverse failing_env ''app.get('' = ([], Some (Thrown ''SyntaxError''))"
    by (simp add: failing_env_def)
  have r2: "fst (analyzeJavaScript failing_env ''app.get('' [''src'', ''bad.js''] demo_analyzer) = Inr [] \<and>
      console (snd (analyzeJavaScript failing_env ''app.get('' [''src'', ''bad.js''] demo_analyzer)) =
        [ConsoleError ''Error parsing src/bad.js:'' (Some (Thrown ''SyntaxError''))]"
    using analyzer_fails_closed [OF p2, of "[''src'', ''bad.js'']" demo_analyzer, THEN conjunct1]
  proof (elim exE conjE)
    fix endpoints s'
    assume a: "analyzeJavaScript failing_env ''app.get('' [''src'', ''bad.js''] demo_analyzer =
        (Inr endpoints, s')"
      and t: "\<forall>e. (\<forall>u \<in> set []. \<exists>r. visitor failing_env u = Inr r) \<and>
         Some (Thrown ''SyntaxError'') = Some e \<longrightarrow>
           endpoints = pushed failing_env [] \<and>
           console s' = console demo_analyzer @
             [ConsoleError (''Error parsing '' @ path_string [''src'', ''bad.js''] @ '':'') (Some e)]"
    from t [rule_format, of "Thrown ''SyntaxError''"] c
    have "endpoints = []"
      "console s' = [ConsoleError ''Error parsing src/bad.js:'' (Some (Thrown ''SyntaxError''))]"
      by (simp_all add: pushed_def)
    with a show ?thesis by simp
  qed
  have p3: "parse_traverse demo_env ''const x = 1'' = ([], None)"
    by (simp add: demo_env_def)
  have r3: "console (snd (analyzeJavaScript demo_env ''const x = 1'' [''src'', ''plain.js'']
                            demo_analyzer)) = []"
    using analyzer_fails_closed [OF p3, of "[''src'', ''plain.js'']" demo_analyzer, THEN conjunct1]
  proof (elim exE conjE)
    fix endpoints s'
    assume a: "analyzeJavaScript demo_env ''const x = 1'' [''src'', ''plain.js''] demo_analyzer =
        (Inr endpoints, s')"
      and t: "(\<forall>u \<in> set []. \<exists>r. visitor demo_env u = Inr r) \<and> (None :: error option) = None \<longrightarrow>
           endpoints = pushed demo_env [] \<and> console s' = console demo_analyzer"
    from t c have "console s' = []" by simp
    with a show ?thesis by simp
  qed
  have r: "readFileSync (fs demo_analyzer) [''README.md''] = Inr ''SETS demo''"
    by (simp add: demo_analyzer_def demo_fs_def readFileSync_def)
  have x: "extname [''README.md''] \<notin> {''.js'', ''.ts'', ''.py''}"
    by (simp add: extname_def extname_segment_def)
  have r4: "analyzeFile failing_env [''README.md''] demo_analyzer = (Inr [], demo_analyzer)"
    using analyzer_fails_closed [OF p2, of "[''src'', ''bad.js'']" demo_analyzer "[''README.md'']"
        "''SETS demo''", THEN conjunct2] r x
    by (elim impE) (intro conjI, assumption+)
  from p1 v1 r1 p2 r2 p3 r3 r x r4 show ?thesis by (intro conjI) (simp_all only: simp_thms)
qed

subsection \<open>The change detector\<close>

lemma not_found_iff:
  "not_found endpoints x \<longleftrightarrow> (\<forall>e \<in> set endpoints. (method e, path e) \<noteq> (method x, path x))"
  by (auto simp: not_found_def same_endpoint_def find_None_iff)

text \<open>With a previous content that is not empty, \<^verbatim>\<open>detectChanges\<close> returns none for an
  unchanged file, and for a changed file the difference between the cached extraction
  and the current one, of type \<^verbatim>\<open>modified\<close>, or none when that difference is empty.\<close>

lemma detectChanges_unchanged:
  assumes "readFileSync (fs s) f = Inr c" and "c \<noteq> []"
  shows "detectChanges E f (Some c) s = (Inr None, s)"
  using assms by (simp add: detectChanges_def falsy_def)

lemma detectChanges_modified:
  assumes "readFileSync (fs s) f = Inr cur" and "prev \<noteq> []" and "prev \<noteq> cur"
  shows "fst (detectChanges E f (Some prev) s) =
           Inr (if endpoint_diff (cached s f) (endpoints_of E (fs s) f) = [] then None
                else Some \<lparr>file_path = f, kind = modified,
                            changes = endpoint_diff (cached s f) (endpoints_of E (fs s) f),
                            timestamp = now E\<rparr>)"
proof -
  obtain r s1 where a: "analyzeFile E f s = (r, s1)" by (cases "analyzeFile E f s")
  with analyzeFile_readable [OF assms(1), of E]
  have r: "r = Inr (endpoints_of E (fs s) f)" by simp
  have d: "map addition (filter (not_found previous) current) @
           map removal (filter (not_found current) previous) = endpoint_diff previous current"
    for previous current
  proof -
    have "not_found p = (\<lambda>x. \<forall>e \<in> set p. (method e, path e) \<noteq> (method x, path x))" for p
      by (rule ext) (rule not_found_iff)
    then show ?thesis by (simp only: endpoint_diff_def)
  qed
  show ?thesis
    using assms a r
    by (simp add: detectChanges_def falsy_def Let_def d cached_def)
qed

text \<open>
  Claim C2, at a previous content that is the empty string: the claim asks for a change
  of type \<^verbatim>\<open>modified\<close> holding the difference with the cached extraction. The test
  \<^verbatim>\<open>!previousContent\<close> takes the empty string for an absent argument, and the file is
  reported as \<^verbatim>\<open>added\<close>, with one addition for each of its endpoints.
\<close>

theorem detectChanges_empty_previous:
  "readFileSync (fs demo_analyzer) [''src'', ''api.py''] = Inr ''@app.get('/users') @app.post('/users')'' \<and>
   fst (detectChanges demo_env [''src'', ''api.py''] (Some []) demo_analyzer) =
     Inr (Some \<lparr>file_path = [''src'', ''api.py''], kind = added,
                changes = [addition \<lparr>path = ''/users'', method = ''GET'', description = None\<rparr>,
                           addition \<lparr>path = ''/users'', method = ''POST'', description = None\<rparr>],
                timestamp = 0\<rparr>)"
  by (simp add: detectChanges_def falsy_def analyzeNewFile_def analyzeFile_def analyzePython_def
      readFileSync_def demo_analyzer_def demo_fs_def demo_env_def extname_def extname_segment_def
      match_route_def toUpperCase_def toUpperCase_char_def isQuote_def Let_def)

text \<open>
  Claim C3, at an empty file whose previous content is the empty string as well: the
  claim asks for none. The same test \<^verbatim>\<open>!previousContent\<close> comes before the comparison
  of the two contents, and the call returns a change of type \<^verbatim>\<open>added\<close> with no entries.
\<close>

theorem detectChanges_empty_unchanged:
  "readFileSync (fs demo_analyzer) [''src'', ''empty.py''] = Inr [] \<and>
   detectChanges demo_env [''src'', ''empty.py''] (Some []) demo_analyzer =
     (Inr (Some \<lparr>file_path = [''src'', ''empty.py''], kind = added, changes = [], timestamp = 0\<rparr>),
      demo_analyzer\<lparr>endpointCache := [[''src'', ''empty.py''] \<mapsto> []]\<rparr>)"
  by (simp add: detectChanges_def falsy_def analyzeNewFile_def analyzeFile_def analyzePython_def
      readFileSync_def demo_analyzer_def demo_fs_def demo_env_def extname_def extname_segment_def
      Let_def)

subsection \<open>The test generator\<close>

text \<open>
  Claim C8. \<^verbatim>\<open>generateTestCode\<close> always returns a text and never an error. Without a
  client it returns the template's text and logs nothing. With a client, when the
  \<^verbatim>\<open>try\<close> block throws (in particular when the call to the client throws) it logs the
  error and returns the template's text; when the call returns no choice, no message, a
  null content or the empty string, it returns the template's text.
\<close>

theorem generateTestCode_fallback:
  "(\<exists>code. fst (generateTestCode G tc w) = Inr code) \<and>
   (openai G = None \<longrightarrow> generateTestCode G tc w = (Inr (generateWithTemplate G tc), w)) \<and>
   (openai G = Some client \<and> generateWithAI_try G client tc = Inl e \<longrightarrow>
      generateTestCode G tc w =
        (Inr (generateWithTemplate G tc), console_error ''AI generation failed:'' (Some e) w)) \<and>
   (openai G = Some client \<and> stringify_testCase G tc = Inr json \<and>
    client (prompt json) = Inl e \<longrightarrow> generateWithAI_try G client tc = Inl e) \<and>
   (openai G = Some client \<and> stringify_testCase G tc = Inr json \<and>
    client (prompt json) = Inr choices \<and>
    (first_content choices = None \<or> first_content choices = Some []) \<longrightarrow>
      generateTestCode G tc w = (Inr (generateWithTemplate G tc), w))"
proof (intro conjI impI)
  show "\<exists>code. fst (generateTestCode G tc w) = Inr code"
  proof (cases "openai G")
    case None
    then show ?thesis by (simp add: generateTestCode_def)
  next
    case (Some cl)
    then show ?thesis
      by (cases "generateWithAI_try G cl tc") (simp_all add: generateTestCode_def generateWithAI_def)
  qed
next
  assume "openai G = None"
  then show "generateTestCode G tc w = (Inr (generateWithTemplate G tc), w)"
    by (simp add: generateTestCode_def)
next
  assume "openai G = Some client \<and> generateWithAI_try G client tc = Inl e"
  then show "generateTestCode G tc w =
      (Inr (generateWithTemplate G tc), console_error ''AI generation failed:'' (Some e) w)"
    by (simp add: generateTestCode_def generateWithAI_def)
next
  assume "openai G = Some client \<and> stringify_testCase G tc = Inr json \<and> client (prompt json) = Inl e"
  then show "generateWithAI_try G client tc = Inl e"
    by (simp add: generateWithAI_try_def)
next
  assume a: "openai G = Some client \<and> stringify_testCase G tc = Inr json \<and>
    client (prompt json) = Inr choices \<and>
    (first_content choices = None \<or> first_content choices = Some [])"
  then have "generateWithAI_try G client tc = Inr (generateWithTemplate G tc)"
    by (auto simp: generateWithAI_try_def)
  with a show "generateTestCode G tc w = (Inr (generateWithTemplate G tc), w)"
    by (simp add: generateTestCode_def generateWithAI_def)
qed

theorem generateTestCode_fallback_witness:
  "openai (demo_generator (Some (\<lambda>p. Inl (Thrown ''429'')))) = Some (\<lambda>p. Inl (Thrown ''429'')) \<and>
   generateWithAI_try (demo_generator (Some (\<lambda>p. Inl (Thrown ''429'')))) (\<lambda>p. Inl (Thrown ''429''))
     demo_get = Inl (Thrown ''429'') \<and>
   generateTestCode (demo_generator (Some (\<lambda>p. Inl (Thrown ''429'')))) demo_get demo_world =
     (Inr ''describe(GET /users)'',
      demo_world\<lparr>console := [ConsoleError ''AI generation failed:'' (Some (Thrown ''429''))]\<rparr>) \<and>
   openai (demo_generator (Some (\<lambda>p. Inr [\<lparr>message = Some \<lparr>content = Some []\<rparr>\<rparr>]))) =
     Some (\<lambda>p. Inr [\<lparr>message = Some \<lparr>content = Some []\<rparr>\<rparr>]) \<and>
   first_content [\<lparr>message = Some \<lparr>content = Some []\<rparr>\<rparr>] = Some [] \<and>
   generateTestCode (demo_generator (Some (\<lambda>p. Inr [\<lparr>message = Some \<lparr>content = Some []\<rparr>\<rparr>])))
     demo_get demo_world = (Inr ''describe(GET /users)'', demo_world) \<and>
   openai (demo_generator None) = None \<and>
   generateTestCode (demo_generator None) demo_get demo_world =
     (Inr ''describe(GET /users)'', demo_world)"
proof -
  let ?fail = "\<lambda>p :: string. (Inl (Thrown ''429'') :: error + Choice list)"
  let ?empty = "\<lambda>p :: string. (Inr [\<lparr>message = Some \<lparr>content = Some []\<rparr>\<rparr>] :: error + Choice list)"
  have t: "generateWithAI_try (demo_generator (Some ?fail)) ?fail demo_get = Inl (Thrown ''429'')"
    by (simp add: generateWithAI_try_def demo_generator_def)
  have f: "first_content [\<lparr>message = Some \<lparr>content = Some []\<rparr>\<rparr>] = Some []"
    by (simp add: first_content_def)
  have g: "generateWithTemplate (demo_generator c) demo_get = ''describe(GET /users)''" for c
    by (simp add: demo_generator_def demo_get_def)
  have o: "openai (demo_generator c) = c" for c by (simp add: demo_generator_def)
  have s: "stringify_testCase (demo_generator c) demo_get = Inr ''GET /users''" for c
    by (simp add: demo_generator_def demo_get_def)
  have c: "console_error ''AI generation failed:'' (Some (Thrown ''429'')) demo_world =
      demo_world\<lparr>console := [ConsoleError ''AI generation failed:'' (Some (Thrown ''429''))]\<rparr>"
    by (simp add: console_error_def demo_world_def)
  have 1: "generateTestCode (demo_generator (Some ?fail)) demo_get demo_world =
      (Inr ''describe(GET /users)'',
       demo_world\<lparr>console := [ConsoleError ''AI generation failed:'' (Some (Thrown ''429''))]\<rparr>)"
    using generateTestCode_fallback [of "demo_generator (Some ?fail)" demo_get demo_world ?fail
        "Thrown ''429''"] t o g c by simp
  have 2: "generateTestCode (demo_generator (Some ?empty)) demo_get demo_world =
      (Inr ''describe(GET /users)'', demo_world)"
    using generateTestCode_fallback [of "demo_generator (Some ?empty)" demo_get demo_world ?empty
        _ "''GET /users''" "[\<lparr>message = Some \<lparr>content = Some []\<rparr>\<rparr>]"] f o g s by simp
  have 3: "generateTestCode (demo_generator None) demo_get demo_world =
      (Inr ''describe(GET /users)'', demo_world)"
    using generateTestCode_fallback [of "demo_generator None" demo_get demo_world] o g by simp
  from t f o 1 2 3 show ?thesis by simp
qed

subsection \<open>The file system\<close>





lemma lookup_wf: "wf_fs t \<Longrightarrow> lookup t p = Some n \<Longrightarrow> wf_fs n"
proof (induction t p rule: lookup.induct)
  case (3 es seg p)
  then obtain m where m: "map_of es seg = Some m" "lookup m p = Some n"
    by (auto split: option.splits)
  then have "(seg, m) \<in> set es" by (simp add: map_of_SomeD)
  with "3.prems"(1) have "wf_fs m" by auto
  with "3.IH" m show ?case by simp
qed auto

lemma lookup_append:
  "lookup t (p @ q) = (case lookup t p of None \<Rightarrow> None | Some n \<Rightarrow> lookup n q)"
  by (induction t p rule: lookup.induct) (auto split: option.splits)

text \<open>In a tree whose directories list each name once, the files that the walk finds are
  regular files, so that they can be read; their names end with one of the extensions.\<close>

lemma walk_found:
  assumes "wf_fs (Dir es)" and "f \<in> set (walk exts cur es)"
  shows "\<exists>q c. f = cur @ q \<and> lookup (Dir es) q = Some (File c)"
  using assms
proof (induction exts cur es rule: walk.induct)
  case (1 extensions currentDir)
  then show ?case by simp
next
  case (2 extensions currentDir entry es entries)
  from "2.prems"(1) have d: "wf_fs (Dir entries)" "entry \<notin> fst ` set entries" "wf_fs (Dir es)"
    by auto
  from "2.prems"(2) consider
    (inner) "\<not> startsWith entry ''.'' \<and> entry \<noteq> ''node_modules''"
      "f \<in> set (walk extensions (join currentDir entry) es)"
    | (rest) "f \<in> set (walk extensions currentDir entries)"
    by (auto split: if_splits)
  then show ?case
  proof cases
    case inner
    from "2.IH"(1) [OF inner(1) d(3) inner(2)] obtain q c where
      q: "f = join currentDir entry @ q" "lookup (Dir es) q = Some (File c)" by blast
    then have "f = currentDir @ (entry # q)"
      "lookup (Dir ((entry, Dir es) # entries)) (entry # q) = Some (File c)"
      by (simp_all add: join_def)
    then show ?thesis by blast
  next
    case rest
    from "2.IH"(2) [OF d(1) rest] obtain q c where
      q: "f = currentDir @ q" "lookup (Dir entries) q = Some (File c)" by blast
    then obtain seg q' where "q = seg # q'" by (cases q) auto
    with q d(2) have "lookup (Dir ((entry, Dir es) # entries)) q = Some (File c)"
      by (auto split: option.splits dest: map_of_SomeD simp: rev_image_eqI)
    with q(1) show ?thesis by blast
  qed
next
  case (3 extensions currentDir entry c entries)
  from "3.prems"(1) have d: "wf_fs (Dir entries)" "entry \<notin> fst ` set entries" by auto
  from "3.prems"(2) consider (here) "f = join currentDir entry"
    | (rest) "f \<in> set (walk extensions currentDir entries)"
    by (auto split: if_splits)
  then show ?case
  proof cases
    case here
    then have "f = currentDir @ [entry]" "lookup (Dir ((entry, File c) # entries)) [entry] = Some (File c)"
      by (simp_all add: join_def)
    then show ?thesis by blast
  next
    case rest
    from "3.IH" [OF d(1) rest] obtain q c' where
      q: "f = currentDir @ q" "lookup (Dir entries) q = Some (File c')" by blast
    then obtain seg q' where "q = seg # q'" by (cases q) auto
    with q d(2) have "lookup (Dir ((entry, File c) # entries)) q = Some (File c')"
      by (auto split: option.splits dest: map_of_SomeD simp: rev_image_eqI)
    with q(1) show ?thesis by blast
  qed
qed

lemma getAllFiles_readable:
  assumes "wf_fs t" and "f \<in> set (getAllFiles t dir exts)"
  shows "\<exists>c. readFileSync t f = Inr c"
proof (cases "lookup t dir")
  case None
  with assms(2) show ?thesis by (simp add: getAllFiles_def)
next
  case (Some n)
  show ?thesis
  proof (cases n)
    case (File c)
    with Some assms(2) show ?thesis by (simp add: getAllFiles_def readFileSync_def)
  next
    case (Dir es)
    with Some assms(1) have "wf_fs (Dir es)" using lookup_wf by blast
    moreover from Some Dir assms(2) have "f \<in> set (walk exts dir es)" by (simp add: getAllFiles_def)
    ultimately obtain q c where "f = dir @ q" "lookup (Dir es) q = Some (File c)"
      using walk_found by blast
    with Some Dir show ?thesis by (simp add: readFileSync_def lookup_append)
  qed
qed

lemma walk_names:
  "f \<in> set (walk exts cur es) \<Longrightarrow> \<exists>ext \<in> set exts. endsWith (last f) ext"
  by (induction exts cur es rule: walk.induct) (auto simp: join_def split: if_splits)

text \<open>The walk of \<^verbatim>\<open>getAllFiles\<close> finds the files described above, in the same
  order.\<close>

lemma files_below_form:
  "f \<in> set (files_below dir es) \<Longrightarrow> \<exists>q. q \<noteq> [] \<and> f = dir @ q"
proof (induction dir es rule: files_below.induct)
  case (2 dir entry es entries)
  then consider "f \<in> set (files_below (join dir entry) es)" | "f \<in> set (files_below dir entries)"
    by auto
  then show ?case
  proof cases
    case 1
    with 2 obtain q where "q \<noteq> []" "f = join dir entry @ q" by blast
    then have "entry # q \<noteq> []" "f = dir @ entry # q" by (simp_all add: join_def)
    then show ?thesis by blast
  next
    case 2
    with "2.IH" show ?thesis by blast
  qed
next
  case (3 dir entry c entries)
  then consider "f = join dir entry" | "f \<in> set (files_below dir entries)" by auto
  then show ?case
  proof cases
    case 1
    then have "[entry] \<noteq> []" "f = dir @ [entry]" by (simp_all add: join_def)
    then show ?thesis by blast
  next
    case 2
    with "3.IH" show ?thesis by blast
  qed
qed simp

lemma walk_files_below:
  "walk exts dir es =
     filter (\<lambda>f. (\<exists>ext \<in> set exts. endsWith (last f) ext) \<and> reached dir f) (files_below dir es)"
proof (induction exts dir es rule: walk.induct)
  case (1 extensions currentDir)
  then show ?case by simp
next
  case (2 extensions currentDir entry es entries)
  let ?ok = "\<not> startsWith entry ''.'' \<and> entry \<noteq> ''node_modules''"
  have inner: "reached currentDir f \<longleftrightarrow> ?ok \<and> reached (join currentDir entry) f"
    if "f \<in> set (files_below (join currentDir entry) es)" for f
  proof -
    from files_below_form [OF that] obtain q where q: "q \<noteq> []" "f = currentDir @ entry # q"
      by (auto simp: join_def)
    then show ?thesis by (simp add: reached_def join_def)
  qed
  have "filter (\<lambda>f. (\<exists>ext \<in> set extensions. endsWith (last f) ext) \<and> reached currentDir f)
          (files_below (join currentDir entry) es) =
        (if ?ok then walk extensions (join currentDir entry) es else [])"
  proof (cases ?ok)
    case True
    with "2.IH"(1) have "walk extensions (join currentDir entry) es =
        filter (\<lambda>f. (\<exists>ext \<in> set extensions. endsWith (last f) ext) \<and> reached (join currentDir entry) f)
          (files_below (join currentDir entry) es)" by simp
    with True inner show ?thesis by (auto intro: filter_cong)
  next
    case False
    with inner have "\<forall>f \<in> set (files_below (join currentDir entry) es). \<not> reached currentDir f"
      by blast
    with False show ?thesis by (auto simp: filter_empty_conv)
  qed
  with "2.IH"(2) show ?case by simp
next
  case (3 extensions currentDir entry c entries)
  have "reached currentDir (join currentDir entry)" by (simp add: reached_def join_def)
  with "3.IH" show ?case by (simp add: join_def)
qed

lemma getAllFiles_found: "getAllFiles tree p exts = found_files tree exts p"
  by (simp add: getAllFiles_def found_files_def walk_files_below split: option.splits fsnode.splits)

lemma source_files_walk:
  "source_files tree cfg =
     concat (map (\<lambda>watchPath. getAllFiles tree watchPath [''.js'', ''.ts'']) (watchPaths cfg))"
  by (simp add: source_files_def getAllFiles_found)

lemma test_files_walk:
  "test_files tree cfg =
     concat (map (\<lambda>testPath. getAllFiles tree testPath [''.test.js'', ''.spec.js'']) (testPaths cfg))"
  by (simp add: test_files_def getAllFiles_found)

subsection \<open>The generated test files\<close>

lemma generateTestCode_state:
  "\<exists>code. fst (generateTestCode G tc w) = Inr code \<and>
     (snd (generateTestCode G tc w) = w \<or>
      (\<exists>e. snd (generateTestCode G tc w) = console_error ''AI generation failed:'' (Some e) w))"
  by (auto simp: generateTestCode_def generateWithAI_def split: option.splits sum.splits)










subsection \<open>The current coverage\<close>

lemma coverage_of_files_sum:
  assumes "\<forall>t \<in> set tests. \<exists>c. readFileSync (fs s) t = Inr c"
    and "\<forall>f \<in> set srcs. \<exists>c. readFileSync (fs s) f = Inr c"
  shows "\<exists>s'. coverage_of_files E srcs tests (tot, n) s =
           (Inr (tot + (\<Sum>t\<leftarrow>tests. coverage_value (content_of (fs s) t) (inventory E (fs s) srcs)),
                 n + length tests), s') \<and> fs s' = fs s"
  using assms
proof (induction tests arbitrary: tot n s)
  case Nil
  then show ?case by simp
next
  case (Cons t tests)
  from Cons.prems(1) obtain c where c: "readFileSync (fs s) t = Inr c" by auto
  obtain r s1 where a: "calculateCoverage E t srcs s = (r, s1)"
    by (cases "calculateCoverage E t srcs s")
  with calculateCoverage_readable [OF c Cons.prems(2), of E] calculateCoverage_fs [of E t srcs s]
  have r: "r = Inr (coverage_value c (inventory E (fs s) srcs))" and s1: "fs s1 = fs s" by auto
  from Cons.prems s1 have p: "\<forall>t \<in> set tests. \<exists>c. readFileSync (fs s1) t = Inr c"
    "\<forall>f \<in> set srcs. \<exists>c. readFileSync (fs s1) f = Inr c" by auto
  from Cons.IH [OF p, of "tot + coverage_value c (inventory E (fs s) srcs)" "n + 1"]
  obtain s' where "coverage_of_files E srcs tests
      (tot + coverage_value c (inventory E (fs s) srcs), n + 1) s1 =
      (Inr (tot + coverage_value c (inventory E (fs s) srcs) +
            (\<Sum>t\<leftarrow>tests. coverage_value (content_of (fs s1) t) (inventory E (fs s1) srcs)),
            n + 1 + length tests), s')" "fs s' = fs s1"
    by blast
  with a r s1 c show ?case by (simp add: content_of_def add.assoc)
qed

lemma coverage_of_paths_sum:
  assumes "wf_fs (fs s)"
    and "\<forall>f \<in> set srcs. \<exists>c. readFileSync (fs s) f = Inr c"
  shows "\<exists>s'. coverage_of_paths E srcs tpaths (tot, n) s =
           (Inr (tot + (\<Sum>t\<leftarrow>concat (map (\<lambda>p. getAllFiles (fs s) p [''.test.js'', ''.spec.js'']) tpaths).
                            coverage_value (content_of (fs s) t) (inventory E (fs s) srcs)),
                 n + length (concat (map (\<lambda>p. getAllFiles (fs s) p [''.test.js'', ''.spec.js'']) tpaths))),
            s') \<and> fs s' = fs s"
  using assms
proof (induction tpaths arbitrary: tot n s)
  case Nil
  then show ?case by simp
next
  case (Cons p tpaths)
  let ?tests = "getAllFiles (fs s) p [''.test.js'', ''.spec.js'']"
  have e: "\<not> existsSync (fs s) p \<Longrightarrow> ?tests = []"
    by (simp add: existsSync_def getAllFiles_def)
  have "\<forall>t \<in> set ?tests. \<exists>c. readFileSync (fs s) t = Inr c"
    using getAllFiles_readable [OF Cons.prems(1)] by blast
  from coverage_of_files_sum [OF this Cons.prems(2), of E tot n]
  obtain s1 where s1: "coverage_of_files E srcs ?tests (tot, n) s =
      (Inr (tot + (\<Sum>t\<leftarrow>?tests. coverage_value (content_of (fs s) t) (inventory E (fs s) srcs)),
            n + length ?tests), s1)" "fs s1 = fs s"
    by blast
  have e': "\<not> existsSync (fs s) p \<Longrightarrow> s1 = s" using e s1(1) by simp
  from Cons.prems s1(2) have p: "wf_fs (fs s1)" "\<forall>f \<in> set srcs. \<exists>c. readFileSync (fs s1) f = Inr c"
    by auto
  from Cons.IH [OF p, of "tot + (\<Sum>t\<leftarrow>?tests. coverage_value (content_of (fs s) t) (inventory E (fs s) srcs))"
      "n + length ?tests"] s1(2)
  obtain s' where s': "coverage_of_paths E srcs tpaths
      (tot + (\<Sum>t\<leftarrow>?tests. coverage_value (content_of (fs s) t) (inventory E (fs s) srcs)),
       n + length ?tests) s1 =
      (Inr (tot + (\<Sum>t\<leftarrow>?tests. coverage_value (content_of (fs s) t) (inventory E (fs s) srcs)) +
            (\<Sum>t\<leftarrow>concat (map (\<lambda>p. getAllFiles (fs s) p [''.test.js'', ''.spec.js'']) tpaths).
               coverage_value (content_of (fs s) t) (inventory E (fs s) srcs)),
            n + length ?tests +
            length (concat (map (\<lambda>p. getAllFiles (fs s) p [''.test.js'', ''.spec.js'']) tpaths))), s')"
    "fs s' = fs s"
    by auto
  show ?case
  proof (cases "existsSync (fs s) p")
    case True
    with s1 s' show ?thesis by (simp add: add.assoc)
  next
    case False
    with e e' s1 s' show ?thesis by (simp add: add.assoc)
  qed
qed

lemma coverage_value_empty: "coverage_value txt {} = 100"
  by (simp add: coverage_value_def)

text \<open>
  Claim C9, as the code has it. In a tree whose directories list each name once,
  \<^verbatim>\<open>calculateCurrentCoverage\<close> returns 0 when no test file is found from the test paths,
  also when the sources have no endpoint and the estimator gives 100 for any single test
  file; otherwise it returns the arithmetic mean of the estimator's values over the test
  files found. The test files found are a test path that is a regular file, whatever its
  name, and below a test path that is a directory the regular files named \<^verbatim>\<open>*.test.js\<close>
  or \<^verbatim>\<open>*.spec.js\<close> that are reached through directories whose name neither starts with
  a dot nor is \<^verbatim>\<open>node_modules\<close>.
\<close>

theorem calculateCurrentCoverage_mean:
  assumes "wf_fs (fs s)"
  shows "fst (calculateCurrentCoverage E s) =
           Inr (if test_files (fs s) (config s) = [] then 0
                else (\<Sum>t\<leftarrow>test_files (fs s) (config s).
                        coverage_value (content_of (fs s) t)
                          (inventory E (fs s) (source_files (fs s) (config s))))
                     / real (length (test_files (fs s) (config s)))) \<and>
         (test_files (fs s) (config s) = [] \<and> inventory E (fs s) (source_files (fs s) (config s)) = {}
            \<longrightarrow> fst (calculateCurrentCoverage E s) = Inr 0 \<and>
                coverage_value txt (inventory E (fs s) (source_files (fs s) (config s))) = 100)"
proof -
  have "\<forall>f \<in> set (source_files (fs s) (config s)). \<exists>c. readFileSync (fs s) f = Inr c"
    using getAllFiles_readable [OF assms] by (auto simp: source_files_walk)
  from coverage_of_paths_sum [OF assms this, of E "testPaths (config s)" 0 0]
  have "fst (calculateCurrentCoverage E s) =
           Inr (if test_files (fs s) (config s) = [] then 0
                else (\<Sum>t\<leftarrow>test_files (fs s) (config s).
                        coverage_value (content_of (fs s) t)
                          (inventory E (fs s) (source_files (fs s) (config s))))
                     / real (length (test_files (fs s) (config s))))"
    by (auto simp: calculateCurrentCoverage_def Let_def source_files_walk test_files_walk)
  then show ?thesis by (simp add: coverage_value_empty)
qed

lemma demo_wf: "wf_fs demo_fs"
  by (simp add: demo_fs_def)

lemma demo_test_files:
  "test_files demo_fs (config demo_suite) = [[''tests'', ''users.test.js''], [''tests'', ''other.spec.js'']]"
  by (simp add: test_files_walk demo_suite_def getAllFiles_def demo_fs_def endsWith_def join_def)

lemma demo_source_files:
  "source_files demo_fs (config demo_suite) = [[''src'', ''server.js'']]"
  by (simp add: source_files_walk demo_suite_def getAllFiles_def demo_fs_def endsWith_def join_def)

lemma demo_server_inventory:
  "inventory demo_env demo_fs [[''src'', ''server.js'']] = {}"
  by (simp add: inventory_def endpoints_of_def analyzeFile_def readFileSync_def demo_fs_def
      extname_def extname_segment_def analyzeJavaScript_def analyzeJavaScript_try_def demo_env_def
      extractDescription_def toUpperCase_def toUpperCase_char_def display_string_def Let_def)

lemma demo_contents:
  "content_of demo_fs [''tests'', ''users.test.js''] = ''it covers GET /users only''"
  "content_of demo_fs [''tests'', ''other.spec.js''] = ''nothing here''"
  by (simp_all add: content_of_def readFileSync_def demo_fs_def)

lemma demo_values:
  "coverage_value ''it covers GET /users only'' {''GET /users'', ''POST /users''} = 50"
  "coverage_value ''nothing here'' {''GET /users'', ''POST /users''} = 0"
  by (simp_all add: coverage_value_def covered_insert covered_empty)

lemma flask_test_files:
  "test_files demo_fs (config flask_suite) = [[''tests'', ''users.test.js''], [''tests'', ''other.spec.js'']]"
  by (simp add: test_files_walk flask_suite_def demo_suite_def getAllFiles_def demo_fs_def endsWith_def
      join_def)

lemma flask_source_files:
  "source_files demo_fs (config flask_suite) = [[''src'', ''api.py'']]"
  by (simp add: source_files_walk flask_suite_def demo_suite_def getAllFiles_def demo_fs_def)

theorem calculateCurrentCoverage_mean_witness:
  "wf_fs (fs demo_suite) \<and>
   test_files (fs demo_suite) (config demo_suite) =
     [[''tests'', ''users.test.js''], [''tests'', ''other.spec.js'']] \<and>
   fst (calculateCurrentCoverage demo_env demo_suite) = Inr 100 \<and>
   wf_fs (fs flask_suite) \<and>
   test_files (fs flask_suite) (config flask_suite) =
     [[''tests'', ''users.test.js''], [''tests'', ''other.spec.js'']] \<and>
   fst (calculateCurrentCoverage demo_env flask_suite) = Inr 25 \<and>
   wf_fs (fs empty_suite) \<and>
   test_files (fs empty_suite) (config empty_suite) = [] \<and>
   inventory demo_env (fs empty_suite) (source_files (fs empty_suite) (config empty_suite)) = {} \<and>
   fst (calculateCurrentCoverage demo_env empty_suite) = Inr 0 \<and>
   coverage_value [] (inventory demo_env (fs empty_suite)
     (source_files (fs empty_suite) (config empty_suite))) = 100"
proof -
  have f: "fs demo_suite = demo_fs" by (simp add: demo_suite_def)
  have f': "fs flask_suite = demo_fs" by (simp add: flask_suite_def demo_suite_def)
  have w: "wf_fs (fs demo_suite)" unfolding f by (rule demo_wf)
  have wf: "wf_fs (fs flask_suite)" unfolding f' by (rule demo_wf)
  have 1: "fst (calculateCurrentCoverage demo_env demo_suite) = Inr 100"
    using calculateCurrentCoverage_mean [OF w, of demo_env]
    unfolding f demo_test_files demo_source_files demo_server_inventory
    by (simp add: coverage_value_empty)
  have 3: "fst (calculateCurrentCoverage demo_env flask_suite) = Inr 25"
    using calculateCurrentCoverage_mean [OF wf, of demo_env]
    unfolding f' flask_test_files flask_source_files demo_inventory
    by (simp add: demo_contents demo_values)
  have w': "wf_fs (fs empty_suite)" by (simp add: empty_suite_def)
  have t: "test_files (fs empty_suite) (config empty_suite) = []"
    by (simp add: test_files_walk empty_suite_def demo_suite_def getAllFiles_def)
  have i: "inventory demo_env (fs empty_suite)
      (source_files (fs empty_suite) (config empty_suite)) = {}"
    by (simp add: inventory_def source_files_walk empty_suite_def demo_suite_def getAllFiles_def)
  from calculateCurrentCoverage_mean [OF w', of demo_env "[]"] t i
  have 2: "fst (calculateCurrentCoverage demo_env empty_suite) = Inr 0 \<and>
      coverage_value [] (inventory demo_env (fs empty_suite)
        (source_files (fs empty_suite) (config empty_suite))) = 100"
    by simp
  from w 1 wf 3 w' t i 2 show ?thesis unfolding f f' demo_test_files flask_test_files by simp
qed

lemmas coverage_defs =
  calculateCurrentCoverage_def getAllFiles_def existsSync_def endsWith_def join_def
  calculateCoverage_def readFileSync_def Let_def

text \<open>
  Claim C9 as stated fails, since the test files that count are not the files named
  \<^verbatim>\<open>*.test.js\<close> or \<^verbatim>\<open>*.spec.js\<close> below the test paths. With a test path that is a
  text file and no file of such a name anywhere, the result is 100 and not 0. With the
  only files of such a name below \<^verbatim>\<open>node_modules\<close> and a dot-directory, where the
  estimator gives 100 for each, the result is 0 and not their mean.
\<close>

theorem test_files_not_by_name:
  "named_test_files (fs readme_suite) (config readme_suite) = [] \<and>
   fst (calculateCurrentCoverage demo_env readme_suite) = Inr 100 \<and>
   named_test_files (fs hidden_suite) (config hidden_suite) =
     [[''tests'', ''node_modules'', ''a.test.js''], [''tests'', ''.cache'', ''b.spec.js'']] \<and>
   fst (calculateCoverage demo_env [''tests'', ''node_modules'', ''a.test.js'']
          (source_files (fs hidden_suite) (config hidden_suite)) hidden_suite) = Inr 100 \<and>
   fst (calculateCoverage demo_env [''tests'', ''.cache'', ''b.spec.js'']
          (source_files (fs hidden_suite) (config hidden_suite)) hidden_suite) = Inr 100 \<and>
   fst (calculateCurrentCoverage demo_env hidden_suite) = Inr 0"
proof -
  have 1: "named_test_files (fs readme_suite) (config readme_suite) = []"
    by (simp add: named_test_files_def files_at_def test_named_def readme_suite_def demo_suite_def
        endsWith_def)
  have 2: "fst (calculateCurrentCoverage demo_env readme_suite) = Inr 100"
    by (simp add: coverage_defs readme_suite_def demo_suite_def)
  have 3: "named_test_files (fs hidden_suite) (config hidden_suite) =
      [[''tests'', ''node_modules'', ''a.test.js''], [''tests'', ''.cache'', ''b.spec.js'']]"
    by (simp add: named_test_files_def files_at_def test_named_def hidden_suite_def demo_suite_def
        endsWith_def join_def)
  have s: "source_files (fs hidden_suite) (config hidden_suite) = []"
    by (simp add: source_files_walk getAllFiles_def hidden_suite_def demo_suite_def)
  have 4: "fst (calculateCoverage demo_env [''tests'', ''node_modules'', ''a.test.js''] [] hidden_suite) =
      Inr 100"
    by (simp add: coverage_defs hidden_suite_def demo_suite_def)
  have 5: "fst (calculateCoverage demo_env [''tests'', ''.cache'', ''b.spec.js''] [] hidden_suite) =
      Inr 100"
    by (simp add: coverage_defs hidden_suite_def demo_suite_def)
  have 6: "fst (calculateCurrentCoverage demo_env hidden_suite) = Inr 0"
    by (simp add: coverage_defs hidden_suite_def demo_suite_def)
  from 1 2 3 4 5 6 show ?thesis unfolding s by (intro conjI)
qed

subsection \<open>The file-event handler\<close>

text \<open>Nothing that runs in the \<^verbatim>\<open>try\<close> block after the snapshot is stored touches the
  snapshots.\<close>

lemma analyzeFile_snapshots:
  "fileSnapshots (snd (analyzeFile E f s)) = fileSnapshots s"
  by (simp add: analyzeFile_def analyzePython_def analyzeJavaScript_def console_error_def Let_def
      split: sum.splits prod.splits option.splits)

lemma collect_endpoints_snapshots:
  "fileSnapshots (snd (collect_endpoints E files acc s)) = fileSnapshots s"
proof (induction files arbitrary: acc s)
  case Nil
  then show ?case by simp
next
  case (Cons f files)
  obtain r s1 where a: "analyzeFile E f s = (r, s1)" by (cases "analyzeFile E f s")
  with analyzeFile_snapshots [of E f s] have "fileSnapshots s1 = fileSnapshots s" by simp
  with a Cons.IH show ?case by (cases r) auto
qed

lemma calculateCoverage_snapshots:
  "fileSnapshots (snd (calculateCoverage E t srcs s)) = fileSnapshots s"
  using collect_endpoints_snapshots [of E srcs "[]" s]
  by (auto simp: calculateCoverage_def Let_def split: sum.splits prod.splits)

lemma coverage_of_files_snapshots:
  "fileSnapshots (snd (coverage_of_files E srcs tests acc s)) = fileSnapshots s"
proof (induction tests arbitrary: acc s)
  case Nil
  then show ?case by (cases acc) simp
next
  case (Cons t tests)
  obtain r s1 where a: "calculateCoverage E t srcs s = (r, s1)"
    by (cases "calculateCoverage E t srcs s")
  with calculateCoverage_snapshots [of E t srcs s] have "fileSnapshots s1 = fileSnapshots s" by simp
  with a Cons.IH show ?case by (cases acc; cases r) auto
qed

lemma coverage_of_paths_snapshots:
  "fileSnapshots (snd (coverage_of_paths E srcs tpaths acc s)) = fileSnapshots s"
proof (induction tpaths arbitrary: acc s)
  case Nil
  then show ?case by simp
next
  case (Cons p tpaths)
  obtain r s1 where a: "coverage_of_files E srcs (getAllFiles (fs s) p [''.test.js'', ''.spec.js'']) acc s = (r, s1)"
    by (cases "coverage_of_files E srcs (getAllFiles (fs s) p [''.test.js'', ''.spec.js'']) acc s")
  with coverage_of_files_snapshots [of E srcs _ acc s] have "fileSnapshots s1 = fileSnapshots s"
    by (metis snd_conv)
  with a Cons.IH show ?case by (cases r) auto
qed

lemma calculateCurrentCoverage_snapshots:
  "fileSnapshots (snd (calculateCurrentCoverage E s)) = fileSnapshots s"
proof -
  let ?srcs = "concat (map (\<lambda>watchPath. getAllFiles (fs s) watchPath [''.js'', ''.ts''])
                           (watchPaths (config s)))"
  obtain r s1 where c: "coverage_of_paths E ?srcs (testPaths (config s)) (0, 0) s = (r, s1)"
    by (cases "coverage_of_paths E ?srcs (testPaths (config s)) (0, 0) s")
  with coverage_of_paths_snapshots [of E ?srcs "testPaths (config s)" "(0, 0)" s]
  have "fileSnapshots s1 = fileSnapshots s" by simp
  with c show ?thesis
    by (cases r) (auto simp: calculateCurrentCoverage_def Let_def)
qed

lemma generateTestCode_suite_snapshots:
  "fileSnapshots (snd (generateTestCode_suite C tc s)) = fileSnapshots s"
  using generateTestCode_state [of "generator C" tc s]
  by (auto simp: generateTestCode_suite_def mkdirSync_def writeFileSync_def console_log_def
      console_error_def Let_def split: sum.splits prod.splits option.splits if_splits)

lemma generate_all_snapshots:
  "fileSnapshots (snd (generate_all C acts s)) = fileSnapshots s"
proof (induction acts arbitrary: s)
  case Nil
  then show ?case by simp
next
  case (Cons a acts)
  obtain r s1 where g: "generateTestCode_suite C (details a) s = (r, s1)"
    by (cases "generateTestCode_suite C (details a) s")
  with generateTestCode_suite_snapshots [of C "details a" s]
  have "fileSnapshots s1 = fileSnapshots s" by simp
  with g Cons.IH show ?case by (cases r) auto
qed

lemma saveEvolutionHistory_snapshots:
  "fileSnapshots (snd (saveEvolutionHistory C s)) = fileSnapshots s"
  by (simp add: saveEvolutionHistory_def writeFileSync_def Let_def split: sum.splits option.splits)

lemma commitChanges_snapshots:
  "fileSnapshots (commitChanges C msg s) = fileSnapshots s"
  by (simp add: commitChanges_def console_log_def console_error_def split: option.splits)

lemma evolveTestSuite_snapshots:
  "fileSnapshots (snd (evolveTestSuite C chs s)) = fileSnapshots s"
proof -
  let ?s0 = "console_log ''Evolving test suite...'' s"
  obtain r1 s1 where c: "calculateCurrentCoverage (analyzer_env C) ?s0 = (r1, s1)"
    by (cases "calculateCurrentCoverage (analyzer_env C) ?s0")
  with calculateCurrentCoverage_snapshots [of "analyzer_env C" ?s0]
  have s1: "fileSnapshots s1 = fileSnapshots s" by (simp add: console_log_def)
  show ?thesis
  proof (cases r1)
    case (Inl e)
    with c s1 show ?thesis by (simp add: evolveTestSuite_def)
  next
    case (Inr cov)
    obtain r2 ev where e: "testEvolver_evolveTestSuite C chs cov (coverageTarget (config s1))
        (testEvolver s1) = (r2, ev)"
      by (cases "testEvolver_evolveTestSuite C chs cov (coverageTarget (config s1)) (testEvolver s1)")
    show ?thesis
    proof (cases r2)
      case (Inl e2)
      with c Inr e s1 show ?thesis by (simp add: evolveTestSuite_def)
    next
      case (Inr evolution)
      let ?s2 = "console_log ''Coverage before and after''
                   (console_log ''Evolution complete'' (s1\<lparr>testEvolver := ev\<rparr>))"
      obtain r3 s3 where g: "generate_all C (actions evolution) ?s2 = (r3, s3)"
        by (cases "generate_all C (actions evolution) ?s2")
      with generate_all_snapshots [of C "actions evolution" ?s2] s1
      have s3: "fileSnapshots s3 = fileSnapshots s" by (simp add: console_log_def)
      obtain r4 s4 where h: "saveEvolutionHistory C s3 = (r4, s4)"
        by (cases "saveEvolutionHistory C s3")
      with saveEvolutionHistory_snapshots [of C s3] s3
      have s4: "fileSnapshots s4 = fileSnapshots s" by simp
      from c \<open>r1 = Inr cov\<close> e Inr g h s3 s4 show ?thesis
        by (cases r3; cases r4) (simp_all add: evolveTestSuite_def commitChanges_snapshots)
    qed
  qed
qed

text \<open>When the handler passes the guard and a change is detected, the snapshot of the file
  is its content for an event other than \<^verbatim>\<open>delete\<close>, and is removed for \<^verbatim>\<open>delete\<close>,
  whatever the evolution does afterwards.\<close>

lemma handleFileChange_snapshot:
  assumes "\<not> isEvolving s"
    and "detectChanges (analyzer_env C) f (fileSnapshots s f)
           ((console_log (''File '' @ event @ '': '' @ path_string f) s)\<lparr>isEvolving := True\<rparr>) =
         (Inr (Some change), s1)"
  shows "fileSnapshots (handleFileChange C f event s) f =
           (if event \<noteq> ''delete'' then Some (content_of (fs s1) f) else None)"
proof -
  let ?s0 = "(console_log (''File '' @ event @ '': '' @ path_string f) s)\<lparr>isEvolving := True\<rparr>"
  have p: "fileSnapshots ?s0 f = fileSnapshots s f" by (simp add: console_log_def)
  from assms(2) have r: "\<exists>c. readFileSync (fs ?s0) f = Inr c"
    by (auto simp: detectChanges_def split: sum.splits)
  have "fs s1 = fs ?s0"
    using assms(2) analyzeFile_fs [of "analyzer_env C" f ?s0]
    by (auto simp: detectChanges_def analyzeNewFile_def Let_def
        split: sum.splits prod.splits if_splits)
  with r obtain c where c: "readFileSync (fs s1) f = Inr c" by auto
  show ?thesis
  proof (cases "event = ''delete''")
    case True
    let ?s2 = "s1\<lparr>fileSnapshots := (fileSnapshots s1)(f := None)\<rparr>"
    obtain r3 s3 where e: "evolveTestSuite C [change] ?s2 = (r3, s3)"
      by (cases "evolveTestSuite C [change] ?s2")
    with evolveTestSuite_snapshots [of C "[change]" ?s2] have "fileSnapshots s3 f = None" by simp
    with assms p e True show ?thesis
      by (cases r3) (simp_all add: handleFileChange_def handleFileChange_try_def console_error_def Let_def)
  next
    case False
    let ?s2 = "s1\<lparr>fileSnapshots := (fileSnapshots s1)(f \<mapsto> c)\<rparr>"
    obtain r3 s3 where e: "evolveTestSuite C [change] ?s2 = (r3, s3)"
      by (cases "evolveTestSuite C [change] ?s2")
    with evolveTestSuite_snapshots [of C "[change]" ?s2] have "fileSnapshots s3 f = Some c" by simp
    with assms p e c False show ?thesis
      by (cases r3) (simp_all add: handleFileChange_def handleFileChange_try_def console_error_def
          content_of_def Let_def)
  qed
qed

text \<open>
  Claim C4, as the code has it. An invocation that finds the guard clear ends with the
  guard clear, whether the \<^verbatim>\<open>try\<close> block returned or threw. An invocation that finds
  the guard set logs a line and returns, leaving the guard set.
\<close>

theorem handleFileChange_guard:
  "(\<not> isEvolving s \<longrightarrow> \<not> isEvolving (handleFileChange C filePath event s)) \<and>
   (isEvolving s \<longrightarrow>
      handleFileChange C filePath event s =
        console_log ''Evolution already in progress, queuing change...'' s)"
proof (cases "isEvolving s")
  case True
  then show ?thesis by (simp add: handleFileChange_def)
next
  case False
  let ?entered = "(console_log (''File '' @ event @ '': '' @ path_string filePath) s)\<lparr>isEvolving := True\<rparr>"
  obtain r s1 where t: "handleFileChange_try C filePath event ?entered = (r, s1)"
    by (cases "handleFileChange_try C filePath event ?entered")
  have "\<not> isEvolving (handleFileChange C filePath event s)"
  proof (cases r)
    case (Inl e)
    with False t have "handleFileChange C filePath event s =
        (console_error ''Error during evolution:'' (Some e) s1)\<lparr>isEvolving := False\<rparr>"
      by (simp add: handleFileChange_def)
    then show ?thesis by simp
  next
    case (Inr u)
    with False t have "handleFileChange C filePath event s = s1\<lparr>isEvolving := False\<rparr>"
      by (simp add: handleFileChange_def)
    then show ?thesis by simp
  qed
  with False show ?thesis by simp
qed

lemmas run_defs =
  handleFileChange_def handleFileChange_try_def detectChanges_def falsy_def analyzeNewFile_def
  analyzeFile_def analyzePython_def analyzeJavaScript_def analyzeJavaScript_try_def
  readFileSync_def extname_def extname_segment_def match_route_def toUpperCase_def
  toUpperCase_char_def isQuote_def addition_def display_string_def
  evolveTestSuite_def calculateCurrentCoverage_def getAllFiles_def existsSync_def endsWith_def
  join_def calculateCoverage_def set_add_def extractDescription_def
  console_log_def console_error_def Let_def

lemma demo_run_throwing:
  "console (handleFileChange throwing_collaborators [''src'', ''api.py''] ''add'' demo_suite) =
     [ConsoleLog ''File add: src/api.py'', ConsoleLog ''Evolving test suite...'',
      ConsoleError ''Error parsing src/server.js:''
        (Some (TypeError ''Cannot read properties of undefined'')),
      ConsoleError ''Error parsing src/server.js:''
        (Some (TypeError ''Cannot read properties of undefined'')),
      ConsoleError ''Error during evolution:'' (Some (Thrown ''evolver failed''))]"
  by (simp add: run_defs demo_suite_def demo_fs_def demo_env_def demo_collaborators_def
      throwing_collaborators_def)

theorem handleFileChange_guard_witness:
  "\<not> isEvolving demo_suite \<and>
   console (handleFileChange throwing_collaborators [''src'', ''api.py''] ''add'' demo_suite) =
     [ConsoleLog ''File add: src/api.py'', ConsoleLog ''Evolving test suite...'',
      ConsoleError ''Error parsing src/server.js:''
        (Some (TypeError ''Cannot read properties of undefined'')),
      ConsoleError ''Error parsing src/server.js:''
        (Some (TypeError ''Cannot read properties of undefined'')),
      ConsoleError ''Error during evolution:'' (Some (Thrown ''evolver failed''))] \<and>
   \<not> isEvolving (handleFileChange throwing_collaborators [''src'', ''api.py''] ''add'' demo_suite) \<and>
   isEvolving (demo_suite\<lparr>isEvolving := True\<rparr>) \<and>
   handleFileChange throwing_collaborators [''src'', ''api.py''] ''add'' (demo_suite\<lparr>isEvolving := True\<rparr>) =
     console_log ''Evolution already in progress, queuing change...'' (demo_suite\<lparr>isEvolving := True\<rparr>)"
proof -
  have i: "\<not> isEvolving demo_suite" by (simp add: demo_suite_def)
  have b: "isEvolving (demo_suite\<lparr>isEvolving := True\<rparr>)" by simp
  from handleFileChange_guard [of demo_suite throwing_collaborators "[''src'', ''api.py'']" "''add''"]
    handleFileChange_guard [of "demo_suite\<lparr>isEvolving := True\<rparr>" throwing_collaborators
      "[''src'', ''api.py'']" "''add''"] i b demo_run_throwing
  show ?thesis by blast
qed

text \<open>
  Claim C4 as stated fails for an event that arrives during a cycle: the invocation
  completes and the guard is still set.
\<close>

theorem handleFileChange_dropped:
  "isEvolving (handleFileChange demo_collaborators [''src'', ''api.py''] ''change''
     (demo_suite\<lparr>isEvolving := True\<rparr>))"
  by (simp add: handleFileChange_def console_log_def)

text \<open>
  Claim C5, at a \<^verbatim>\<open>delete\<close> event for a file that is gone: the claim asks for the
  snapshot to be deleted. \<^verbatim>\<open>detectChanges\<close> reads the file first and throws, the branch
  that deletes the snapshot is not reached, and the snapshot stays.
\<close>

theorem handleFileChange_delete_keeps_snapshot:
  "readFileSync (fs demo_suite) [''src'', ''old.py''] = Inl (ENOENT [''src'', ''old.py'']) \<and>
   fileSnapshots
     (handleFileChange demo_collaborators [''src'', ''old.py''] ''delete''
        (demo_suite\<lparr>fileSnapshots := [[''src'', ''old.py''] \<mapsto> ''@app.get('/old')'']\<rparr>))
     [''src'', ''old.py''] = Some ''@app.get('/old')''"
  by (simp add: handleFileChange_def handleFileChange_try_def detectChanges_def readFileSync_def
      demo_suite_def demo_fs_def console_log_def console_error_def)

subsection \<open>The metrics\<close>

text \<open>
  Claim C10. \<^verbatim>\<open>getMetrics\<close> reports the number of test cases that the evolver returns,
  the number of those whose flag \<^verbatim>\<open>autoGenerated\<close> is set, and for \<^verbatim>\<open>coverage\<close> and
  \<^verbatim>\<open>lastEvolution\<close> the \<^verbatim>\<open>coverage.after\<close> and the timestamp of the last entry of
  the history, or 0 and null when the history is empty.
\<close>

theorem getMetrics_values:
  "totalTests (getMetrics s) = length (getTestCases (testEvolver s)) \<and>
   autoGeneratedTests (getMetrics s) =
     card {i. i < length (getTestCases (testEvolver s)) \<and>
              autoGenerated (getTestCases (testEvolver s) ! i)} \<and>
   (getEvolutionHistory (testEvolver s) = [] \<longrightarrow>
      coverage (getMetrics s) = 0 \<and> lastEvolution (getMetrics s) = None) \<and>
   (getEvolutionHistory (testEvolver s) \<noteq> [] \<longrightarrow>
      coverage (getMetrics s) = coverage_after (last (getEvolutionHistory (testEvolver s))) \<and>
      lastEvolution (getMetrics s) = Some (evolved_at (last (getEvolutionHistory (testEvolver s)))))"
proof -
  let ?tests = "getTestCases (testEvolver s)" and ?history = "getEvolutionHistory (testEvolver s)"
  have total: "totalTests (getMetrics s) = length ?tests"
    by (simp add: getMetrics_def Let_def)
  have "autoGeneratedTests (getMetrics s) = length (filter autoGenerated ?tests)"
    by (simp add: getMetrics_def Let_def)
  then have auto_gen: "autoGeneratedTests (getMetrics s) =
      card {i. i < length ?tests \<and> autoGenerated (?tests ! i)}"
    by (simp add: length_filter_conv_card)
  have none: "coverage (getMetrics s) = 0 \<and> lastEvolution (getMetrics s) = None"
    if "?history = []"
    using that by (simp add: getMetrics_def Let_def)
  have some: "coverage (getMetrics s) = coverage_after (last ?history) \<and>
      lastEvolution (getMetrics s) = Some (evolved_at (last ?history))"
    if "?history \<noteq> []"
  proof -
    from that have "?history ! (length ?history - 1) = last ?history"
      by (simp add: last_conv_nth)
    with that show ?thesis by (simp add: getMetrics_def Let_def)
  qed
  from total auto_gen none some show ?thesis by blast
qed

theorem getMetrics_values_witness:
  "getEvolutionHistory (testEvolver demo_suite) = [] \<and>
   coverage (getMetrics demo_suite) = 0 \<and> lastEvolution (getMetrics demo_suite) = None \<and>
   getEvolutionHistory (testEvolver evolved_suite) \<noteq> [] \<and>
   totalTests (getMetrics evolved_suite) = 2 \<and>
   autoGeneratedTests (getMetrics evolved_suite) = 1 \<and>
   coverage (getMetrics evolved_suite) = 75 \<and>
   lastEvolution (getMetrics evolved_suite) = Some 20"
proof -
  have h0: "getEvolutionHistory (testEvolver demo_suite) = []"
    by (simp add: getEvolutionHistory_def demo_suite_def)
  have h1: "getEvolutionHistory (testEvolver evolved_suite) \<noteq> []"
    by (simp add: getEvolutionHistory_def evolved_suite_def)
  have l: "last (getEvolutionHistory (testEvolver evolved_suite)) =
      \<lparr>version = 2, reason = ''second'', actions = [], coverage_before = 40,
       coverage_after = 75, evolved_at = 20\<rparr>"
    by (simp add: getEvolutionHistory_def evolved_suite_def)
  have t: "getTestCases (testEvolver evolved_suite) = [demo_get, demo_post\<lparr>autoGenerated := False\<rparr>]"
    by (simp add: getTestCases_def evolved_suite_def)
  have c: "{i. i < length [demo_get, demo_post\<lparr>autoGenerated := False\<rparr>] \<and>
              autoGenerated ([demo_get, demo_post\<lparr>autoGenerated := False\<rparr>] ! i)} = {0}"
    by (auto simp: demo_get_def less_Suc_eq nth_Cons')
  from getMetrics_values [of demo_suite] getMetrics_values [of evolved_suite] h0 h1
  show ?thesis unfolding l t c by simp
qed

end
